theory Spec2Isabelle
  imports Complex_Main "HOL-Library.AList"
begin

section \<open>Data model of \<^verbatim>\<open>ibkr_mcp/sqs_client.py\<close>\<close>

text \<open>
  JSON values: what \<^verbatim>\<open>json.dumps\<close> accepts in a request and what
  \<^verbatim>\<open>json.loads\<close> yields for a response body. A Python \<^verbatim>\<open>dict\<close> is an
  association list in insertion order with pairwise distinct keys.
\<close>

datatype json =
  JNull
| JBool bool
| JInt int
| JString string
| JArray "json list"
| JObject "(string \<times> json) list"

type_synonym dict = "(string \<times> json) list"

text \<open>
  What a call into boto3 can raise. botocore's \<^verbatim>\<open>ClientError\<close> (an error response of
  the service) is the one class the client has handlers for; \<open>OtherException\<close> stands for
  every exception that is not a \<^verbatim>\<open>ClientError\<close>, such as botocore's
  \<^verbatim>\<open>EndpointConnectionError\<close> and \<^verbatim>\<open>NoCredentialsError\<close>. The text of the exception is
  kept.
\<close>

datatype fault = ClientError string | OtherException string

text \<open>
  What \<^verbatim>\<open>json.loads\<close> can raise: \<^verbatim>\<open>JSONDecodeError\<close>, or something else
  (\<^verbatim>\<open>RecursionError\<close> on deep nesting, a plain \<^verbatim>\<open>ValueError\<close> on an integer with too
  many digits).
\<close>

datatype loads_error = JSONDecodeError string | LoadsException string

text \<open>
  The exceptions that leave \<^verbatim>\<open>send_request\<close>: one that no handler caught, the
  \<^verbatim>\<open>OverflowError\<close> of the \<^verbatim>\<open>datetime\<close> arithmetic, and the module's own two classes.
  In the source \<^verbatim>\<open>SQSTimeoutError\<close> is a subclass of \<^verbatim>\<open>SQSClientError\<close>; a
  constructor here stands for the exact class of the raised object.
\<close>

datatype error =
  Escaped fault
| OverflowError
| SQSClientError string
| SQSTimeoutError string

text \<open>
  A received SQS message: \<^verbatim>\<open>message["ReceiptHandle"]\<close>, \<^verbatim>\<open>message["Body"]\<close> and the
  optional \<^verbatim>\<open>MessageAttributes\<close>, a dict from attribute name to a dict with entries
  such as \<^verbatim>\<open>StringValue\<close> and \<^verbatim>\<open>DataType\<close>. SQS delivers the first two keys with
  every message, so the subscripts of the source find them, and such a dict is never empty:
  \<^verbatim>\<open>if matching_message:\<close> asks whether a message was selected.
\<close>

record message =
  ReceiptHandle :: string
  Body :: string
  MessageAttributes :: "(string \<times> (string \<times> string) list) list option"

text \<open>The answer of \<^verbatim>\<open>receive_message\<close>; the key \<^verbatim>\<open>Messages\<close> may be missing.\<close>

record response =
  Messages :: "message list option"

text \<open>
  One scripted \<^verbatim>\<open>receive_message\<close> call: how long the long poll blocked, in
  microseconds (the resolution of \<^verbatim>\<open>datetime\<close>), and what it produced.
\<close>

record fetch =
  took :: nat
  outcome :: "fault + response"

text \<open>
  Everything the client does to the outside, in the order it happens. The queue URL
  arguments are fixed per client and are left out: \<open>SendMessage\<close> goes to the request
  queue, the three other channel operations to the response queue.
\<close>

datatype call =
  SendMessage dict
| ReceiveMessage nat int
| ChangeMessageVisibility string nat
| DeleteMessage string
| Sleep rat
| LogInfo string
| LogWarning string

text \<open>
  The collaborators that are not part of the repository, as parameters: the boto3 client
  (for each operation, what the call issued at position \<open>n\<close> of the trace raises, if
  anything), \<^verbatim>\<open>uuid4\<close> as the stream of identifiers it hands out,
  \<^verbatim>\<open>datetime.isoformat\<close> and \<^verbatim>\<open>json.loads\<close>.
\<close>

record boto =
  send_message_fault :: "nat \<Rightarrow> fault option"
  receive_message_result :: "nat \<Rightarrow> fetch"
  change_message_visibility_fault :: "nat \<Rightarrow> fault option"
  delete_message_fault :: "nat \<Rightarrow> fault option"
  uuid4 :: "nat \<Rightarrow> string"
  isoformat :: "rat \<Rightarrow> string"
  json_loads :: "string \<Rightarrow> loads_error + json"

text \<open>
  The state threaded through the calls: the wall clock \<^verbatim>\<open>datetime.now()\<close> in seconds
  since \<^verbatim>\<open>datetime.min\<close> (0001-01-01 00:00:00), the trace of calls so far, and the number
  of identifiers drawn from \<^verbatim>\<open>uuid4\<close>.
\<close>

record world =
  now :: rat
  calls :: "call list"
  uuids :: nat

section \<open>The transport operations\<close>

definition emit :: "call \<Rightarrow> world \<Rightarrow> world" where
  "emit c w = w\<lparr>calls := calls w @ [c]\<rparr>"

text \<open>
  \<^verbatim>\<open>time.sleep\<close>. The loop only ever sleeps a delay between 0.5 and 5 seconds (it starts at
  0.5 and every pass hands on \<open>min (d * 1.5) 5.0\<close>), so the \<^verbatim>\<open>ValueError\<close> of a negative
  argument has no place here.
\<close>

definition sleep :: "rat \<Rightarrow> world \<Rightarrow> world" where
  "sleep secs w = w\<lparr>now := now w + secs, calls := calls w @ [Sleep secs]\<rparr>"

definition raised :: "fault option \<Rightarrow> fault + unit" where
  "raised x = (case x of Some f \<Rightarrow> Inl f | None \<Rightarrow> Inr ())"

definition send_message :: "boto \<Rightarrow> dict \<Rightarrow> world \<Rightarrow> (fault + unit) \<times> world" where
  "send_message client msg w =
     (raised (send_message_fault client (length (calls w))), emit (SendMessage msg) w)"

definition receive_message ::
  "boto \<Rightarrow> nat \<Rightarrow> int \<Rightarrow> world \<Rightarrow> (fault + response) \<times> world" where
  "receive_message client max_number wait_time_seconds w =
     (let r = receive_message_result client (length (calls w))
      in (outcome r,
          w\<lparr>now := now w + of_nat (took r) / 1000000,
            calls := calls w @ [ReceiveMessage max_number wait_time_seconds]\<rparr>))"

definition change_message_visibility ::
  "boto \<Rightarrow> string \<Rightarrow> nat \<Rightarrow> world \<Rightarrow> (fault + unit) \<times> world" where
  "change_message_visibility client handle visibility_timeout w =
     (raised (change_message_visibility_fault client (length (calls w))),
      emit (ChangeMessageVisibility handle visibility_timeout) w)"

definition delete_message :: "boto \<Rightarrow> string \<Rightarrow> world \<Rightarrow> (fault + unit) \<times> world" where
  "delete_message client handle w =
     (raised (delete_message_fault client (length (calls w))), emit (DeleteMessage handle) w)"

section \<open>\<^verbatim>\<open>SQSClient._wait_for_response\<close>\<close>

text \<open>
  \<^verbatim>\<open>message.get("MessageAttributes", {}).get("ExecutionId", {}).get("StringValue")\<close>:
  \<open>None\<close> as soon as one of the three lookups finds nothing.
\<close>

definition msg_execution_id :: "message \<Rightarrow> string option" where
  "msg_execution_id m =
     (case MessageAttributes m of
        None \<Rightarrow> None
      | Some attrs \<Rightarrow>
          (case map_of attrs ''ExecutionId'' of
             None \<Rightarrow> None
           | Some attr \<Rightarrow> map_of attr ''StringValue''))"

text \<open>
  The \<^verbatim>\<open>for message in messages\<close> loop. \<open>matching_message\<close> is overwritten by every
  message whose identifier equals the target; any other message is handed back with
  visibility 0. \<^verbatim>\<open>except ClientError: pass\<close> passes over a \<^verbatim>\<open>ClientError\<close> of that
  call; any other exception leaves the loop and the function at once (\<open>Inl\<close>).
\<close>

fun scan_messages ::
  "boto \<Rightarrow> string \<Rightarrow> message list \<Rightarrow> message option \<Rightarrow> world
     \<Rightarrow> (fault + message option) \<times> world" where
  "scan_messages client execution_id [] matching_message w = (Inr matching_message, w)"
| "scan_messages client execution_id (m # ms) matching_message w =
     (if msg_execution_id m = Some execution_id
      then scan_messages client execution_id ms (Some m) w
      else (case change_message_visibility client (ReceiptHandle m) 0 w of
              (Inl (ClientError e), w') \<Rightarrow> scan_messages client execution_id ms matching_message w'
            | (Inl (OtherException e), w') \<Rightarrow> (Inl (OtherException e), w')
            | (Inr u, w') \<Rightarrow> scan_messages client execution_id ms matching_message w'))"

text \<open>How one pass through the body of the \<^verbatim>\<open>while\<close> loop ends.\<close>

datatype step =
  Continue world rat
| Return json world
| Raise error world

text \<open>
  The body of the \<^verbatim>\<open>while\<close> loop, from \<^verbatim>\<open>receive_message\<close> to the backoff at its
  end. \<open>Continue w d\<close> goes back to the loop test with the new \<open>poll_delay\<close>. The
  handlers are those of the source: \<^verbatim>\<open>except ClientError\<close> around the fetch and around
  each release, \<^verbatim>\<open>except json.JSONDecodeError\<close> around the parse and the delete (which
  therefore lets every exception of \<^verbatim>\<open>delete_message\<close> through: boto3 raises no
  \<^verbatim>\<open>JSONDecodeError\<close> of its own); whatever they do not name ends the call.
\<close>

definition poll_once :: "boto \<Rightarrow> string \<Rightarrow> int \<Rightarrow> rat \<Rightarrow> world \<Rightarrow> step" where
  "poll_once client execution_id wait_time_seconds poll_delay w =
     (case receive_message client 10 wait_time_seconds w of
        (Inl (ClientError e), w1) \<Rightarrow>
          Continue (sleep poll_delay (emit (LogWarning (''Error receiving message: '' @ e)) w1))
                   (min (poll_delay * 1.5) 5.0)
      | (Inl (OtherException e), w1) \<Rightarrow> Raise (Escaped (OtherException e)) w1
      | (Inr resp, w1) \<Rightarrow>
          (let messages = (case Messages resp of None \<Rightarrow> [] | Some ms \<Rightarrow> ms) in
           if messages = []
           then Continue (sleep (min poll_delay 5.0) w1) (min (poll_delay * 1.5) 5.0)
           else
             (case scan_messages client execution_id messages None w1 of
                (Inl f, w2) \<Rightarrow> Raise (Escaped f) w2
              | (Inr None, w2) \<Rightarrow>
                  Continue (sleep (min poll_delay 5.0) w2) (min (poll_delay * 1.5) 5.0)
              | (Inr (Some matching_message), w2) \<Rightarrow>
                  (case json_loads client (Body matching_message) of
                     Inr response_data \<Rightarrow>
                       (case delete_message client (ReceiptHandle matching_message) w2 of
                          (Inl f, w3) \<Rightarrow> Raise (Escaped f) w3
                        | (Inr u, w3) \<Rightarrow>
                            Return response_data
                              (emit (LogInfo (''Received response for '' @ execution_id)) w3))
                   | Inl (JSONDecodeError e) \<Rightarrow>
                       (let w3 = emit (LogWarning (''Invalid JSON in response: '' @ e)) w2 in
                        case change_message_visibility client
                               (ReceiptHandle matching_message) 0 w3 of
                          (Inl (OtherException x), w4) \<Rightarrow> Raise (Escaped (OtherException x)) w4
                        | (Inl (ClientError x), w4) \<Rightarrow>
                            Continue (sleep (min poll_delay 5.0) w4) (min (poll_delay * 1.5) 5.0)
                        | (Inr u, w4) \<Rightarrow>
                            Continue (sleep (min poll_delay 5.0) w4) (min (poll_delay * 1.5) 5.0))
                   | Inl (LoadsException e) \<Rightarrow> Raise (Escaped (OtherException e)) w2))))"

text \<open>
  The \<^verbatim>\<open>while datetime.now() < timeout\<close> loop. Nothing in its shape bounds the number
  of passes, so it lives in the option monad: \<open>None\<close> would be a loop that never ends.
\<close>

partial_function (option) wait_loop ::
  "boto \<Rightarrow> string \<Rightarrow> int \<Rightarrow> rat \<Rightarrow> rat \<Rightarrow> world \<Rightarrow> ((error + json) \<times> world) option" where
  "wait_loop client execution_id wait_time_seconds timeout poll_delay w =
     (if now w < timeout
      then (case poll_once client execution_id wait_time_seconds poll_delay w of
              Continue w' poll_delay' \<Rightarrow>
                wait_loop client execution_id wait_time_seconds timeout poll_delay' w'
            | Return response_data w' \<Rightarrow> Some (Inr response_data, w')
            | Raise e w' \<Rightarrow> Some (Inl e, w'))
      else Some (Inl (SQSTimeoutError
                        (''Timeout waiting for response. Execution ID: '' @ execution_id)), w))"

declare wait_loop.simps [code]

text \<open>
  The instants a \<^verbatim>\<open>datetime\<close> can hold run from \<^verbatim>\<open>datetime.min\<close> to
  \<^verbatim>\<open>datetime.max\<close> (9999-12-31 23:59:59.999999), which is 315537897599.999999 seconds
  later. \<^verbatim>\<open>start_time + timedelta(minutes=timeout_minutes)\<close> raises \<^verbatim>\<open>OverflowError\<close> when
  the sum is outside that range, be it in the addition or, for a span of more than
  999999999 days (which takes every reading of the clock out of the range), already in
  building the \<^verbatim>\<open>timedelta\<close>.
\<close>

definition datetime_max :: rat where
  "datetime_max = 315537897599.999999"

definition in_datetime_range :: "rat \<Rightarrow> bool" where
  "in_datetime_range t \<longleftrightarrow> 0 \<le> t \<and> t \<le> datetime_max"

definition wait_for_response ::
  "boto \<Rightarrow> string \<Rightarrow> int \<Rightarrow> int \<Rightarrow> world \<Rightarrow> ((error + json) \<times> world) option" where
  "wait_for_response client execution_id timeout_minutes wait_time_seconds w =
     (let start_time = now w;
          timeout = start_time + 60 * of_int timeout_minutes
      in if \<not> in_datetime_range timeout then Some (Inl OverflowError, w)
         else (let poll_delay = 0.5
               in wait_loop client execution_id wait_time_seconds timeout poll_delay w))"

section \<open>\<^verbatim>\<open>SQSClient.send_request\<close>\<close>

text \<open>\<^verbatim>\<open>dict.update\<close>: each pair in turn replaces the value of its key or is appended.\<close>

definition dict_update :: "dict \<Rightarrow> dict \<Rightarrow> dict" where
  "dict_update d other = fold (\<lambda>(k, v). AList.update k v) other d"

text \<open>
  \<^verbatim>\<open>if params:\<close> holds for a dict that is neither \<^verbatim>\<open>None\<close> nor empty.
\<close>

definition build_request :: "string \<Rightarrow> string \<Rightarrow> string \<Rightarrow> dict option \<Rightarrow> dict" where
  "build_request operation execution_id timestamp params =
     (let request = [(''operation'', JString operation),
                     (''execution_id'', JString execution_id),
                     (''timestamp'', JString timestamp)]
      in (case params of
            None \<Rightarrow> request
          | Some p \<Rightarrow> if p \<noteq> [] then dict_update request p else request))"

text \<open>
  \<^verbatim>\<open>except ClientError\<close> around \<^verbatim>\<open>send_message\<close> turns a \<^verbatim>\<open>ClientError\<close> into
  \<^verbatim>\<open>SQSClientError\<close>; any other exception of the publish leaves the function as it is.
\<close>

definition send_request ::
  "boto \<Rightarrow> string \<Rightarrow> dict option \<Rightarrow> int \<Rightarrow> int \<Rightarrow> world \<Rightarrow> ((error + json) \<times> world) option" where
  "send_request client operation params timeout_minutes wait_time_seconds w =
     (let execution_id = uuid4 client (uuids w);
          w0 = w\<lparr>uuids := Suc (uuids w)\<rparr>;
          timestamp = isoformat client (now w0);
          request = build_request operation execution_id timestamp params;
          w1 = emit (LogInfo (''Sending request '' @ execution_id @ '' for operation ''
                               @ [CHR 0x27] @ operation @ [CHR 0x27])) w0
      in (case send_message client request w1 of
            (Inl (ClientError e), w2) \<Rightarrow>
              Some (Inl (SQSClientError (''Failed to send request: '' @ e)), w2)
          | (Inl (OtherException e), w2) \<Rightarrow> Some (Inl (Escaped (OtherException e)), w2)
          | (Inr u, w2) \<Rightarrow>
              wait_for_response client execution_id timeout_minutes wait_time_seconds
                (emit (LogInfo (''Waiting for response to '' @ execution_id)) w2)))"

text \<open>
  \<^verbatim>\<open>handle_error\<close> of \<^verbatim>\<open>ibkr_mcp/server.py\<close>, the caller that tells the failures apart.
  \<^verbatim>\<open>isinstance\<close> follows the class hierarchy, so the subclass is asked for first;
  \<open>str_of\<close> is the text of the exception.
\<close>

fun isinstance_SQSTimeoutError :: "error \<Rightarrow> bool" where
  "isinstance_SQSTimeoutError (SQSTimeoutError m) = True"
| "isinstance_SQSTimeoutError e = False"

fun isinstance_SQSClientError :: "error \<Rightarrow> bool" where
  "isinstance_SQSClientError (SQSClientError m) = True"
| "isinstance_SQSClientError (SQSTimeoutError m) = True"
| "isinstance_SQSClientError e = False"

fun str_of :: "error \<Rightarrow> string" where
  "str_of (Escaped (ClientError m)) = m"
| "str_of (Escaped (OtherException m)) = m"
| "str_of OverflowError = ''date value out of range''"
| "str_of (SQSClientError m) = m"
| "str_of (SQSTimeoutError m) = m"

definition handle_error :: "error \<Rightarrow> string" where
  "handle_error e =
     (if isinstance_SQSTimeoutError e
      then ''Request timed out. The TWS service may be unavailable or processing a long operation.''
           @ [CHR 0x0A, CHR 0x0A] @ ''Error: '' @ str_of e
      else if isinstance_SQSClientError e
      then ''SQS communication error. Check AWS credentials and queue access.''
           @ [CHR 0x0A, CHR 0x0A] @ ''Error: '' @ str_of e
      else ''Unexpected error: '' @ str_of e)"

section \<open>\<^verbatim>\<open>RateLimiter\<close> of \<^verbatim>\<open>onepassword_mcp/security.py\<close>\<close>

record RateLimiter =
  min_delay :: rat
  last_resolve_time :: rat

text \<open>
  The clock \<^verbatim>\<open>time.monotonic()\<close> in seconds, and the delays \<^verbatim>\<open>asyncio.sleep\<close> was asked
  for.
\<close>

record timeline =
  monotonic :: rat
  waits :: "rat list"

definition RateLimiter_init :: "rat \<Rightarrow> RateLimiter" where
  "RateLimiter_init min_delay_seconds =
     \<lparr>min_delay = min_delay_seconds, last_resolve_time = 0.0\<rparr>"

text \<open>
  \<^verbatim>\<open>await asyncio.sleep(delay)\<close>. By how much the clock has moved on when it returns is the
  event loop's business (its timers have a resolution, other tasks run): \<open>slept\<close> gives
  that duration for the delay asked.
\<close>

definition asyncio_sleep :: "(rat \<Rightarrow> rat) \<Rightarrow> rat \<Rightarrow> timeline \<Rightarrow> timeline" where
  "asyncio_sleep slept delay t =
     t\<lparr>monotonic := monotonic t + slept delay, waits := waits t @ [delay]\<rparr>"

text \<open>
  The body of \<^verbatim>\<open>acquire\<close>, run by one caller at a time inside \<^verbatim>\<open>async with self._lock\<close>.
  The source computes \<open>elapsed\<close> and \<open>wait_time\<close> in binary floating point: each
  subtraction yields the double next to the exact difference. \<open>fl\<close> is that rounding, a
  parameter here. The statements themselves take no time: the two readings of a call that
  does not sleep are the same.
\<close>

definition acquire ::
  "(rat \<Rightarrow> rat) \<Rightarrow> (rat \<Rightarrow> rat) \<Rightarrow> RateLimiter \<Rightarrow> timeline \<Rightarrow> RateLimiter \<times> timeline" where
  "acquire fl slept self t =
     (let now = monotonic t;
          elapsed = fl (now - last_resolve_time self);
          t' = (if elapsed < min_delay self \<and> last_resolve_time self > 0
                then (let wait_time = fl (min_delay self - elapsed)
                      in asyncio_sleep slept wait_time t)
                else t)
      in (self\<lparr>last_resolve_time := monotonic t'\<rparr>, t'))"

text \<open>Time that goes by between two calls.\<close>

definition idle :: "rat \<Rightarrow> timeline \<Rightarrow> timeline" where
  "idle secs t = t\<lparr>monotonic := monotonic t + secs\<rparr>"

section \<open>Observations used in the statements\<close>

text \<open>The messages a scripted \<^verbatim>\<open>receive_message\<close> hands to the loop.\<close>

definition batch :: "fetch \<Rightarrow> message list" where
  "batch r =
     (case outcome r of
        Inl e \<Rightarrow> []
      | Inr resp \<Rightarrow> (case Messages resp of None \<Rightarrow> [] | Some ms \<Rightarrow> ms))"

text \<open>The batch that the pass of the loop starting in world \<open>w\<close> fetches.\<close>

definition fetched :: "boto \<Rightarrow> world \<Rightarrow> message list" where
  "fetched client w = batch (receive_message_result client (length (calls w)))"

definition matching :: "string \<Rightarrow> message list \<Rightarrow> message list" where
  "matching execution_id ms = filter (\<lambda>m. msg_execution_id m = Some execution_id) ms"

definition others :: "string \<Rightarrow> message list \<Rightarrow> message list" where
  "others execution_id ms = filter (\<lambda>m. msg_execution_id m \<noteq> Some execution_id) ms"

definition release :: "message \<Rightarrow> call" where
  "release m = ChangeMessageVisibility (ReceiptHandle m) 0"

text \<open>The calls made between an earlier world and a later one.\<close>

definition new_calls :: "world \<Rightarrow> world \<Rightarrow> call list" where
  "new_calls w w' = drop (length (calls w)) (calls w')"

fun world_of :: "step \<Rightarrow> world" where
  "world_of (Continue w d) = w"
| "world_of (Return v w) = w"
| "world_of (Raise e w) = w"

text \<open>
  The scan of the batch in the pass starting in \<open>w\<close>: whether it runs to its end (no
  release raises anything but \<^verbatim>\<open>ClientError\<close>), and the world it leaves, in which the
  pass goes on to parse and delete.
\<close>

definition scan_completes :: "boto \<Rightarrow> string \<Rightarrow> int \<Rightarrow> world \<Rightarrow> bool" where
  "scan_completes client execution_id wait_time_seconds w =
     (case fst (scan_messages client execution_id (fetched client w) None
                  (snd (receive_message client 10 wait_time_seconds w))) of
        Inl f \<Rightarrow> False
      | Inr selected \<Rightarrow> True)"

definition scanned :: "boto \<Rightarrow> string \<Rightarrow> int \<Rightarrow> world \<Rightarrow> world" where
  "scanned client execution_id wait_time_seconds w =
     snd (scan_messages client execution_id (fetched client w) None
            (snd (receive_message client 10 wait_time_seconds w)))"

text \<open>What of a scripted fault gets past \<^verbatim>\<open>except ClientError\<close>.\<close>

fun escaping :: "fault option \<Rightarrow> string option" where
  "escaping (Some (OtherException e)) = Some e"
| "escaping x = None"

fun sleeps :: "call list \<Rightarrow> rat list" where
  "sleeps [] = []"
| "sleeps (Sleep d # cs) = d # sleeps cs"
| "sleeps (c # cs) = sleeps cs"

fun deletes :: "call list \<Rightarrow> string list" where
  "deletes [] = []"
| "deletes (DeleteMessage h # cs) = h # deletes cs"
| "deletes (c # cs) = deletes cs"

fun published :: "call list \<Rightarrow> dict list" where
  "published [] = []"
| "published (SendMessage d # cs) = d # published cs"
| "published (c # cs) = published cs"

fun on_message :: "call \<Rightarrow> bool" where
  "on_message (ChangeMessageVisibility h t) = True"
| "on_message (DeleteMessage h) = True"
| "on_message c = False"

text \<open>
  The values \<open>poll_delay\<close> runs through from \<open>d\<close> on, one for each pass that reaches
  \<^verbatim>\<open>poll_delay = min(poll_delay * 1.5, 5.0)\<close>.
\<close>

fun poll_delays :: "rat \<Rightarrow> nat \<Rightarrow> rat list" where
  "poll_delays d 0 = []"
| "poll_delays d (Suc n) = d # poll_delays (min (d * 1.5) 5.0) n"

section \<open>Concrete runs\<close>

text \<open>
  A response carrying its identifier in the \<^verbatim>\<open>ExecutionId\<close> attribute, and a message
  with no attributes at all.
\<close>

definition answer :: "string \<Rightarrow> string \<Rightarrow> string \<Rightarrow> message" where
  "answer handle body execution_id =
     \<lparr>ReceiptHandle = handle, Body = body,
      MessageAttributes =
        Some [(''ExecutionId'', [(''StringValue'', execution_id), (''DataType'', ''String'')])]\<rparr>"

definition bare :: "string \<Rightarrow> string \<Rightarrow> message" where
  "bare handle body = \<lparr>ReceiptHandle = handle, Body = body, MessageAttributes = None\<rparr>"

text \<open>A stand-in for \<^verbatim>\<open>json.loads\<close> that reads two numerals and rejects the rest.\<close>

definition toy_loads :: "string \<Rightarrow> loads_error + json" where
  "toy_loads s =
     (if s = ''1'' then Inr (JInt 1)
      else if s = ''2'' then Inr (JInt 2)
      else Inl (JSONDecodeError ''Expecting value''))"

text \<open>
  A client whose \<^verbatim>\<open>receive_message\<close> and \<^verbatim>\<open>delete_message\<close> follow the given scripts,
  whose \<^verbatim>\<open>send_message\<close> meets the given fault, and whose releases all succeed.
\<close>

definition scripted ::
  "fault option \<Rightarrow> (nat \<Rightarrow> fetch) \<Rightarrow> (nat \<Rightarrow> fault option) \<Rightarrow> boto" where
  "scripted send_fault results delete_faults =
     \<lparr>send_message_fault = (\<lambda>n. send_fault),
      receive_message_result = results,
      change_message_visibility_fault = (\<lambda>n. None),
      delete_message_fault = delete_faults,
      uuid4 = (\<lambda>n. ''id-'' @ replicate n (CHR ''i'')),
      isoformat = (\<lambda>t. ''2024-01-01T00:00:00''),
      json_loads = toy_loads\<rparr>"

text \<open>
  Scripts of faults: none at all, the same \<^verbatim>\<open>ClientError\<close> at every position, or a
  connection that is down (botocore's \<^verbatim>\<open>EndpointConnectionError\<close> is not a
  \<^verbatim>\<open>ClientError\<close>).
\<close>

fun no_faults :: "nat \<Rightarrow> fault option" where
  "no_faults n = None"

fun access_denied :: "nat \<Rightarrow> fault option" where
  "access_denied n = Some (ClientError ''AccessDenied'')"

fun unavailable :: "nat \<Rightarrow> fault option" where
  "unavailable n = Some (ClientError ''ServiceUnavailable'')"

fun unreachable :: "nat \<Rightarrow> fault option" where
  "unreachable n = Some (OtherException ''EndpointConnectionError'')"

definition delivers :: "nat \<Rightarrow> message list \<Rightarrow> nat \<Rightarrow> fetch" where
  "delivers micros ms n = \<lparr>took = micros, outcome = Inr \<lparr>Messages = Some ms\<rparr>\<rparr>"

definition breaks :: "nat \<Rightarrow> fetch" where
  "breaks n = \<lparr>took = 0, outcome = Inl (OtherException ''EndpointConnectionError'')\<rparr>"

definition world0 :: world where
  "world0 = \<lparr>now = 0, calls = [], uuids = 0\<rparr>"

text \<open>A world whose clock stands at 2024-01-01 00:00:00.\<close>

definition world2024 :: world where
  "world2024 = \<lparr>now = 63839664000, calls = [], uuids = 0\<rparr>"

text \<open>
  The rounding of a run in which every difference is itself a double, as for the readings
  0, 1/4, 100 and the delay 1; and a sleep that lasts exactly as long as asked.
\<close>

definition exact :: "rat \<Rightarrow> rat" where
  "exact x = x"

definition punctual :: "rat \<Rightarrow> rat" where
  "punctual delay = delay"

text \<open>
  A \<^verbatim>\<open>json.loads\<close> that meets a body nested deeper than the interpreter's recursion limit:
  \<^verbatim>\<open>RecursionError\<close> is not a \<^verbatim>\<open>JSONDecodeError\<close>.
\<close>

definition nested_loads :: "string \<Rightarrow> loads_error + json" where
  "nested_loads s = Inl (LoadsException ''maximum recursion depth exceeded'')"

section \<open>The scan of a batch\<close>

lemma world_calls_same [simp]: "w\<lparr>calls := calls w\<rparr> = (w::world)"
  by simp

lemma scan_messages_shape:
  "\<exists>k. snd (scan_messages client eid ms mm w) =
         w\<lparr>calls := calls w @ map release (take k (others eid ms))\<rparr>"
proof (induction ms arbitrary: mm w)
  case Nil
  show ?case by (simp add: others_def)
next
  case (Cons m ms)
  show ?case
  proof (cases "msg_execution_id m = Some eid")
    case True
    with Cons.IH [of "Some m" w] show ?thesis by (simp add: others_def)
  next
    case False
    define w1 where "w1 = emit (release m) w"
    have o: "others eid (m # ms) = m # others eid ms" using False by (simp add: others_def)
    from Cons.IH [of mm w1] obtain k where
      k: "snd (scan_messages client eid ms mm w1) =
            w1\<lparr>calls := calls w1 @ map release (take k (others eid ms))\<rparr>" by blast
    show ?thesis
    proof (cases "change_message_visibility_fault client (length (calls w))")
      case None
      then have "snd (scan_messages client eid (m # ms) mm w) =
          w\<lparr>calls := calls w @ map release (take (Suc k) (others eid (m # ms)))\<rparr>"
        using False k
        by (simp add: change_message_visibility_def raised_def w1_def emit_def release_def o)
      then show ?thesis by blast
    next
      case (Some f)
      show ?thesis
      proof (cases f)
        case (ClientError e)
        then have "snd (scan_messages client eid (m # ms) mm w) =
            w\<lparr>calls := calls w @ map release (take (Suc k) (others eid (m # ms)))\<rparr>"
          using False k Some
          by (simp add: change_message_visibility_def raised_def w1_def emit_def release_def o)
        then show ?thesis by blast
      next
        case (OtherException e)
        then have "snd (scan_messages client eid (m # ms) mm w) =
            w\<lparr>calls := calls w @ map release (take (Suc 0) (others eid (m # ms)))\<rparr>"
          using False Some
          by (simp add: change_message_visibility_def raised_def emit_def release_def o)
        then show ?thesis by blast
      qed
    qed
  qed
qed

lemma scan_messages_complete:
  "fst (scan_messages client eid ms mm w) = Inr x \<Longrightarrow>
   snd (scan_messages client eid ms mm w) = w\<lparr>calls := calls w @ map release (others eid ms)\<rparr>
   \<and> x = (case matching eid ms of [] \<Rightarrow> mm | y # ys \<Rightarrow> Some (last (y # ys)))"
proof (induction ms arbitrary: mm w)
  case Nil
  then show ?case by (simp add: others_def matching_def)
next
  case (Cons m ms)
  show ?case
  proof (cases "msg_execution_id m = Some eid")
    case True
    with Cons.prems have "fst (scan_messages client eid ms (Some m) w) = Inr x" by simp
    from Cons.IH [OF this] True show ?thesis
      by (simp add: others_def matching_def split: list.splits)
  next
    case False
    define w1 where "w1 = emit (release m) w"
    have o: "others eid (m # ms) = m # others eid ms" "matching eid (m # ms) = matching eid ms"
      using False by (simp_all add: others_def matching_def)
    from Cons.prems False have rec: "fst (scan_messages client eid ms mm w1) = Inr x"
      and eq: "scan_messages client eid (m # ms) mm w = scan_messages client eid ms mm w1"
      by (auto simp: change_message_visibility_def raised_def w1_def emit_def release_def
            split: option.splits fault.splits)
    from Cons.IH [OF rec] show ?thesis
      by (simp only: eq o) (simp add: w1_def emit_def)
  qed
qed

lemma scan_messages_inl:
  "fst (scan_messages client eid ms mm w) = Inl f \<Longrightarrow> \<exists>e. f = OtherException e"
proof (induction ms arbitrary: mm w)
  case Nil
  then show ?case by simp
next
  case (Cons m ms)
  then show ?case
    by (auto simp: change_message_visibility_def raised_def
          split: if_splits option.splits fault.splits)
qed

lemma scan_messages_escaping:
  assumes "\<forall>n. escaping (g n) = escaping (change_message_visibility_fault client n)"
  shows "scan_messages (client\<lparr>change_message_visibility_fault := g\<rparr>) eid ms mm w =
         scan_messages client eid ms mm w"
proof (induction ms arbitrary: mm w)
  case Nil
  show ?case by simp
next
  case (Cons m ms)
  from assms have e: "escaping (g (length (calls w))) =
      escaping (change_message_visibility_fault client (length (calls w)))" by blast
  show ?case
  proof (cases "msg_execution_id m = Some eid")
    case True
    then show ?thesis by (simp add: Cons.IH)
  next
    case False
    then show ?thesis
      using e
      by (cases "g (length (calls w))" rule: escaping.cases;
          cases "change_message_visibility_fault client (length (calls w))" rule: escaping.cases)
         (simp_all add: change_message_visibility_def raised_def Cons.IH)
  qed
qed

section \<open>One pass of the loop\<close>

lemma received_eq:
  "snd (receive_message client 10 wts w) =
     w\<lparr>now := now w + of_nat (took (receive_message_result client (length (calls w)))) / 1000000,
       calls := calls w @ [ReceiveMessage 10 wts]\<rparr>"
  by (simp add: receive_message_def Let_def)

lemma scanned_shape:
  "\<exists>k. scanned client eid wts w =
     w\<lparr>now := now w + of_nat (took (receive_message_result client (length (calls w)))) / 1000000,
       calls := calls w @ ReceiveMessage 10 wts #
                map release (take k (others eid (fetched client w)))\<rparr>"
proof -
  from scan_messages_shape [of client eid "fetched client w" None "snd (receive_message client 10 wts w)"]
  obtain k where "snd (scan_messages client eid (fetched client w) None
                         (snd (receive_message client 10 wts w))) =
      (snd (receive_message client 10 wts w))
        \<lparr>calls := calls (snd (receive_message client 10 wts w)) @
                  map release (take k (others eid (fetched client w)))\<rparr>" by blast
  then have "scanned client eid wts w =
     w\<lparr>now := now w + of_nat (took (receive_message_result client (length (calls w)))) / 1000000,
       calls := calls w @ ReceiveMessage 10 wts #
                map release (take k (others eid (fetched client w)))\<rparr>"
    by (simp add: scanned_def received_eq)
  then show ?thesis by blast
qed

lemma scan_completes_iff:
  "scan_completes client eid wts w \<longleftrightarrow>
   (\<exists>x. fst (scan_messages client eid (fetched client w) None
               (snd (receive_message client 10 wts w))) = Inr x)"
  by (simp add: scan_completes_def split: sum.splits)

lemma scan_selected:
  assumes "scan_completes client eid wts w"
  shows "scan_messages client eid (fetched client w) None (snd (receive_message client 10 wts w)) =
           (Inr (case matching eid (fetched client w) of [] \<Rightarrow> None
                 | y # ys \<Rightarrow> Some (last (y # ys))),
            w\<lparr>now := now w + of_nat (took (receive_message_result client (length (calls w)))) / 1000000,
              calls := calls w @ ReceiveMessage 10 wts # map release (others eid (fetched client w))\<rparr>)"
proof -
  from assms obtain x where x: "fst (scan_messages client eid (fetched client w) None
               (snd (receive_message client 10 wts w))) = Inr x"
    by (auto simp: scan_completes_iff)
  from scan_messages_complete [OF x] x show ?thesis
    by (simp add: prod_eq_iff received_eq)
qed

lemma scanned_eq:
  "scan_completes client eid wts w \<Longrightarrow>
   scanned client eid wts w =
     w\<lparr>now := now w + of_nat (took (receive_message_result client (length (calls w)))) / 1000000,
       calls := calls w @ ReceiveMessage 10 wts # map release (others eid (fetched client w))\<rparr>"
  by (simp add: scanned_def scan_selected)

lemma scan_aborted:
  assumes "\<not> scan_completes client eid wts w"
  shows "\<exists>e. scan_messages client eid (fetched client w) None
               (snd (receive_message client 10 wts w)) =
             (Inl (OtherException e), scanned client eid wts w)"
    and "fetched client w \<noteq> []"
proof -
  from assms obtain f where f: "fst (scan_messages client eid (fetched client w) None
               (snd (receive_message client 10 wts w))) = Inl f"
    by (auto simp: scan_completes_def split: sum.splits)
  from scan_messages_inl [OF f] obtain e where "f = OtherException e" by blast
  with f show "\<exists>e. scan_messages client eid (fetched client w) None
               (snd (receive_message client 10 wts w)) =
             (Inl (OtherException e), scanned client eid wts w)"
    by (auto simp: prod_eq_iff scanned_def)
  from f show "fetched client w \<noteq> []" by auto
qed

lemma fetched_nonempty:
  assumes "fetched client w \<noteq> []"
  obtains resp where "outcome (receive_message_result client (length (calls w))) = Inr resp"
    and "Messages resp = Some (fetched client w)"
  using assms unfolding fetched_def batch_def
  by (cases "outcome (receive_message_result client (length (calls w)))";
      cases "Messages (projr (outcome (receive_message_result client (length (calls w)))))")
     auto

lemma poll_once_scan:
  assumes "fetched client w \<noteq> []"
  shows "poll_once client eid wts d w =
     (case scan_messages client eid (fetched client w) None (snd (receive_message client 10 wts w)) of
        (Inl f, w2) \<Rightarrow> Raise (Escaped f) w2
      | (Inr None, w2) \<Rightarrow> Continue (sleep (min d 5.0) w2) (min (d * 1.5) 5.0)
      | (Inr (Some m), w2) \<Rightarrow>
          (case json_loads client (Body m) of
             Inr v \<Rightarrow>
               (case delete_message client (ReceiptHandle m) w2 of
                  (Inl f, w3) \<Rightarrow> Raise (Escaped f) w3
                | (Inr u, w3) \<Rightarrow> Return v (emit (LogInfo (''Received response for '' @ eid)) w3))
           | Inl (JSONDecodeError e) \<Rightarrow>
               (let w3 = emit (LogWarning (''Invalid JSON in response: '' @ e)) w2 in
                case change_message_visibility client (ReceiptHandle m) 0 w3 of
                  (Inl (OtherException x), w4) \<Rightarrow> Raise (Escaped (OtherException x)) w4
                | (Inl (ClientError x), w4) \<Rightarrow>
                    Continue (sleep (min d 5.0) w4) (min (d * 1.5) 5.0)
                | (Inr u, w4) \<Rightarrow> Continue (sleep (min d 5.0) w4) (min (d * 1.5) 5.0))
           | Inl (LoadsException e) \<Rightarrow> Raise (Escaped (OtherException e)) w2))"
proof -
  from assms obtain resp where o: "outcome (receive_message_result client (length (calls w))) = Inr resp"
    and m: "Messages resp = Some (fetched client w)" by (rule fetched_nonempty)
  have rm: "receive_message client 10 wts w = (Inr resp, snd (receive_message client 10 wts w))"
    by (simp add: receive_message_def Let_def o)
  show ?thesis
    unfolding poll_once_def
    by (subst rm) (simp add: m assms Let_def)
qed

lemma poll_once_matched:
  assumes "matching eid (fetched client w) \<noteq> []" and "scan_completes client eid wts w"
  shows "poll_once client eid wts d w =
     (let m = last (matching eid (fetched client w)); w2 = scanned client eid wts w in
      case json_loads client (Body m) of
        Inr v \<Rightarrow>
          (case delete_message client (ReceiptHandle m) w2 of
             (Inl f, w3) \<Rightarrow> Raise (Escaped f) w3
           | (Inr u, w3) \<Rightarrow> Return v (emit (LogInfo (''Received response for '' @ eid)) w3))
      | Inl (JSONDecodeError e) \<Rightarrow>
          (let w3 = emit (LogWarning (''Invalid JSON in response: '' @ e)) w2 in
           case change_message_visibility client (ReceiptHandle m) 0 w3 of
             (Inl (OtherException x), w4) \<Rightarrow> Raise (Escaped (OtherException x)) w4
           | (Inl (ClientError x), w4) \<Rightarrow> Continue (sleep (min d 5.0) w4) (min (d * 1.5) 5.0)
           | (Inr u, w4) \<Rightarrow> Continue (sleep (min d 5.0) w4) (min (d * 1.5) 5.0))
      | Inl (LoadsException e) \<Rightarrow> Raise (Escaped (OtherException e)) w2)"
proof -
  from assms(1) have ne: "fetched client w \<noteq> []" by (auto simp: matching_def)
  from assms(1) obtain y ys where mt: "matching eid (fetched client w) = y # ys"
    by (cases "matching eid (fetched client w)") auto
  show ?thesis
    by (simp add: poll_once_scan [OF ne] scan_selected [OF assms(2)] scanned_eq [OF assms(2)]
          mt Let_def)
qed

lemma poll_once_aborted:
  assumes "\<not> scan_completes client eid wts w"
  shows "\<exists>e. poll_once client eid wts d w =
              Raise (Escaped (OtherException e)) (scanned client eid wts w)"
proof -
  from scan_aborted [OF assms] obtain e where
    s: "scan_messages client eid (fetched client w) None (snd (receive_message client 10 wts w)) =
          (Inl (OtherException e), scanned client eid wts w)"
    and ne: "fetched client w \<noteq> []" by blast
  show ?thesis by (simp add: poll_once_scan [OF ne] s)
qed

lemma poll_once_broken:
  assumes "outcome (receive_message_result client (length (calls w))) = Inl (OtherException e)"
  shows "poll_once client eid wts d w =
           Raise (Escaped (OtherException e))
             (w\<lparr>now := now w + of_nat (took (receive_message_result client (length (calls w)))) / 1000000,
                calls := calls w @ [ReceiveMessage 10 wts]\<rparr>)"
  by (simp add: poll_once_def receive_message_def Let_def assms)

lemma poll_once_unmatched:
  assumes "matching eid (fetched client w) = []" and "scan_completes client eid wts w"
    and "\<forall>e. outcome (receive_message_result client (length (calls w))) \<noteq> Inl (OtherException e)"
  shows "\<exists>logs sl. poll_once client eid wts d w =
     Continue (w\<lparr>now := now w + of_nat (took (receive_message_result client (length (calls w)))) / 1000000 + sl,
                calls := calls w @ ReceiveMessage 10 wts # logs @ map release (others eid (fetched client w)) @ [Sleep sl]\<rparr>)
              (min (d * 1.5) 5) \<and> (sl = d \<or> sl = min d 5) \<and> (\<forall>c \<in> set logs. \<exists>t. c = LogWarning t)"
proof -
  obtain r where r: "receive_message_result client (length (calls w)) = r" by simp
  show ?thesis
  proof (cases "outcome r")
    case (Inl f)
    with assms(3) r obtain e where e: "outcome r = Inl (ClientError e)" by (cases f) auto
    have f: "fetched client w = []" by (simp add: fetched_def batch_def r e)
    show ?thesis
      apply (rule exI [of _ "[LogWarning (''Error receiving message: '' @ e)]"])
      apply (rule exI [of _ d])
      by (simp add: poll_once_def receive_message_def r e f others_def sleep_def emit_def Let_def)
  next
    case (Inr resp)
    show ?thesis
    proof (cases "fetched client w = []")
      case True
      then have ms: "(case Messages resp of None \<Rightarrow> [] | Some ms \<Rightarrow> ms) = []"
        by (simp add: fetched_def batch_def r Inr)
      show ?thesis
        apply (rule exI [of _ "[]"])
        apply (rule exI [of _ "min d 5"])
        by (simp add: poll_once_def receive_message_def r Inr ms True others_def sleep_def Let_def)
    next
      case False
      show ?thesis
        apply (rule exI [of _ "[]"])
        apply (rule exI [of _ "min d 5"])
        by (simp add: poll_once_scan [OF False] scan_selected [OF assms(2)] assms(1) sleep_def r)
    qed
  qed
qed

lemma poll_once_cases [case_names broken aborted unmatched matched]:
  obtains e where "outcome (receive_message_result client (length (calls w))) = Inl (OtherException e)"
  | "\<not> scan_completes client eid wts w"
  | "scan_completes client eid wts w" and "matching eid (fetched client w) = []"
    and "\<forall>e. outcome (receive_message_result client (length (calls w))) \<noteq> Inl (OtherException e)"
  | "scan_completes client eid wts w" and "matching eid (fetched client w) \<noteq> []"
  by blast

lemma new_calls_append [simp]: "new_calls w (w'\<lparr>calls := calls w @ cs\<rparr>) = cs"
  by (simp add: new_calls_def)

lemma deletes_append: "deletes (xs @ ys) = deletes xs @ deletes ys"
  by (induction xs rule: deletes.induct) auto

lemma deletes_releases [simp]: "deletes (map release ms) = []"
  by (induction ms) (auto simp: release_def)

lemma sleeps_append: "sleeps (xs @ ys) = sleeps xs @ sleeps ys"
  by (induction xs rule: sleeps.induct) auto

lemma sleeps_releases [simp]: "sleeps (map release ms) = []"
  by (induction ms) (auto simp: release_def)

lemma published_append: "published (xs @ ys) = published xs @ published ys"
  by (induction xs rule: published.induct) auto

lemma published_releases [simp]: "published (map release ms) = []"
  by (induction ms) (auto simp: release_def)

lemma logs_quiet:
  "\<forall>c \<in> set logs. \<exists>t. c = LogWarning t \<Longrightarrow>
   sleeps logs = [] \<and> published logs = [] \<and> deletes logs = []"
  by (induction logs) auto

lemma poll_once_progress:
  assumes "poll_once client eid wts d w = Continue w' d'" and "0 \<le> d"
  shows "now w + min d 5 \<le> now w'" and "d' = min (d * 1.5) 5"
proof -
  have "now w + min d 5 \<le> now w' \<and> d' = min (d * 1.5) 5"
  proof (cases rule: poll_once_cases [where client = client and w = w and eid = eid and wts = wts])
    case (broken e)
    with assms(1) show ?thesis by (simp add: poll_once_broken)
  next
    case aborted
    from poll_once_aborted [OF aborted, of d] assms(1) show ?thesis by auto
  next
    case unmatched
    from poll_once_unmatched [OF unmatched(2,1,3), of d] assms show ?thesis
      by (auto simp: min_def)
  next
    case matched
    from assms show ?thesis
      by (auto simp: poll_once_matched [OF matched(2,1)] Let_def scanned_eq [OF matched(1)]
            sleep_def change_message_visibility_def emit_def delete_message_def
            split: sum.splits prod.splits loads_error.splits fault.splits)
  qed
  then show "now w + min d 5 \<le> now w'" and "d' = min (d * 1.5) 5" by simp_all
qed

lemma poll_once_next_delay:
  "poll_once client eid wts d w = Continue w' d' \<Longrightarrow> d' = min (d * 1.5) 5.0"
proof (cases rule: poll_once_cases [where client = client and w = w and eid = eid and wts = wts])
  case (broken e)
  assume "poll_once client eid wts d w = Continue w' d'"
  with broken show ?thesis by (simp add: poll_once_broken)
next
  case aborted
  assume "poll_once client eid wts d w = Continue w' d'"
  with poll_once_aborted [OF aborted, of d] show ?thesis by auto
next
  case unmatched
  assume "poll_once client eid wts d w = Continue w' d'"
  with poll_once_unmatched [OF unmatched(2,1,3), of d] show ?thesis by auto
next
  case matched
  assume "poll_once client eid wts d w = Continue w' d'"
  then show ?thesis
    by (auto simp: poll_once_matched [OF matched(2,1)] Let_def
          split: sum.splits prod.splits loads_error.splits fault.splits)
qed

lemma poll_once_raise:
  "poll_once client eid wts d w = Raise e w' \<Longrightarrow> \<exists>f. e = Escaped f"
proof (cases rule: poll_once_cases [where client = client and w = w and eid = eid and wts = wts])
  case (broken x)
  assume "poll_once client eid wts d w = Raise e w'"
  with broken show ?thesis by (auto simp: poll_once_broken)
next
  case aborted
  assume "poll_once client eid wts d w = Raise e w'"
  with poll_once_aborted [OF aborted, of d] show ?thesis by auto
next
  case unmatched
  assume "poll_once client eid wts d w = Raise e w'"
  with poll_once_unmatched [OF unmatched(2,1,3), of d] show ?thesis by auto
next
  case matched
  assume "poll_once client eid wts d w = Raise e w'"
  then show ?thesis
    by (auto simp: poll_once_matched [OF matched(2,1)] Let_def
          split: sum.splits prod.splits loads_error.splits fault.splits)
qed

lemma poll_once_effect:
  assumes "1/2 \<le> d" and "d \<le> 5"
  shows "\<exists>evs. calls (world_of (poll_once client eid wts d w)) = calls w @ evs
             \<and> uuids (world_of (poll_once client eid wts d w)) = uuids w
             \<and> published evs = []
             \<and> sleeps evs = (case poll_once client eid wts d w of Continue w' d' \<Rightarrow> [d] | _ \<Rightarrow> [])"
proof (cases rule: poll_once_cases [where client = client and w = w and eid = eid and wts = wts])
  case (broken e)
  show ?thesis by (simp add: poll_once_broken [OF broken])
next
  case aborted
  from poll_once_aborted [OF aborted, of d] obtain e where
    p: "poll_once client eid wts d w = Raise (Escaped (OtherException e)) (scanned client eid wts w)"
    by blast
  from scanned_shape [of client eid wts w] obtain k where
    "scanned client eid wts w =
     w\<lparr>now := now w + of_nat (took (receive_message_result client (length (calls w)))) / 1000000,
       calls := calls w @ ReceiveMessage 10 wts #
                map release (take k (others eid (fetched client w)))\<rparr>" by blast
  then show ?thesis by (simp add: p)
next
  case unmatched
  from poll_once_unmatched [OF unmatched(2,1,3), of d] obtain logs sl where
    p: "poll_once client eid wts d w =
     Continue (w\<lparr>now := now w + of_nat (took (receive_message_result client (length (calls w)))) / 1000000 + sl,
                calls := calls w @ ReceiveMessage 10 wts # logs @ map release (others eid (fetched client w)) @ [Sleep sl]\<rparr>)
              (min (d * 1.5) 5)" and sl: "sl = d \<or> sl = min d 5"
    and logs: "\<forall>c \<in> set logs. \<exists>t. c = LogWarning t" by blast
  from sl assms have sl': "sl = d" by auto
  show ?thesis
    using logs_quiet [OF logs]
    by (simp add: p sl' sleeps_append published_append)
next
  case matched
  show ?thesis
    by (simp add: poll_once_matched [OF matched(2,1)] Let_def scanned_eq [OF matched(1)]
          delete_message_def emit_def sleep_def change_message_visibility_def sleeps_append
          published_append release_def assms
          split: sum.splits prod.splits loads_error.splits fault.splits)
qed

lemma wait_loop_pass:
  "now w < timeout \<Longrightarrow>
   wait_loop client eid wts timeout d w =
     (case poll_once client eid wts d w of
        Continue w' d' \<Rightarrow> wait_loop client eid wts timeout d' w'
      | Return v w' \<Rightarrow> Some (Inr v, w')
      | Raise e w' \<Rightarrow> Some (Inl e, w'))"
  by (subst wait_loop.simps) simp

lemma wait_loop_expired:
  "\<not> now w < timeout \<Longrightarrow>
   wait_loop client eid wts timeout d w =
     Some (Inl (SQSTimeoutError (''Timeout waiting for response. Execution ID: '' @ eid)), w)"
  by (subst wait_loop.simps) simp

section \<open>Termination and the calls of a whole call\<close>

lemma wait_loop_induct [consumes 1, case_names expired pass]:
  assumes d: "1/2 \<le> d"
    and expired: "\<And>d w. \<not> now w < timeout \<Longrightarrow> P d w"
    and pass: "\<And>d w. now w < timeout \<Longrightarrow> 1/2 \<le> d \<Longrightarrow>
                (\<And>w' d'. poll_once client eid wts d w = Continue w' d' \<Longrightarrow> P d' w')
                \<Longrightarrow> P d w"
  shows "P d w"
  using d
proof (induction "nat \<lceil>(timeout - now w) * 2\<rceil>" arbitrary: d w rule: less_induct)
  case less
  show ?case
  proof (cases "now w < timeout")
    case False
    then show ?thesis by (rule expired)
  next
    case True
    show ?thesis
    proof (rule pass [OF True less.prems])
      fix w' d'
      assume c: "poll_once client eid wts d w = Continue w' d'"
      have d0: "0 \<le> d" using less.prems by simp
      from poll_once_progress(2) [OF c d0] less.prems
      have d': "1/2 \<le> d'" by (simp add: min_def)
      from poll_once_progress(1) [OF c d0] less.prems
      have "now w + 1/2 \<le> now w'" by (simp add: min_def split: if_splits)
      then have "(timeout - now w') * 2 \<le> (timeout - now w) * 2 - 1" by simp
      then have "\<lceil>(timeout - now w') * 2\<rceil> \<le> \<lceil>(timeout - now w) * 2 - 1\<rceil>"
        by (rule ceiling_mono)
      moreover have "0 < \<lceil>(timeout - now w) * 2\<rceil>" using True by simp
      ultimately have "nat \<lceil>(timeout - now w') * 2\<rceil> < nat \<lceil>(timeout - now w) * 2\<rceil>"
        by simp
      then show "P d' w'" using d' by (rule less.hyps)
    qed
  qed
qed

lemma new_calls_chain:
  assumes "calls w1 = calls w @ evs" and "calls w' = calls w1 @ new_calls w1 w'"
  shows "new_calls w w' = evs @ new_calls w1 w'"
proof -
  define rest where "rest = new_calls w1 w'"
  from assms have "calls w' = calls w @ (evs @ rest)" by (simp add: rest_def)
  then have "drop (length (calls w)) (calls w') = evs @ rest" by simp
  then show ?thesis by (simp add: new_calls_def rest_def)
qed

lemma wait_loop_total:
  assumes "1/2 \<le> d"
  shows "d \<le> 5 \<longrightarrow> (\<exists>r w' n. wait_loop client eid wts timeout d w = Some (r, w')
           \<and> calls w' = calls w @ new_calls w w'
           \<and> uuids w' = uuids w
           \<and> published (new_calls w w') = []
           \<and> sleeps (new_calls w w') = poll_delays d n
           \<and> (\<forall>m. r \<noteq> Inl (SQSClientError m)))"
  using assms
proof (induction d w rule: wait_loop_induct [where client = client and eid = eid and wts = wts and timeout = timeout])
  case (expired d w)
  have "poll_delays d 0 = []" by simp
  then show ?case
    by (auto simp: wait_loop_expired [OF expired(1)] new_calls_def intro!: exI [of _ 0])
next
  case (pass d w)
  show ?case
  proof
    assume d5: "d \<le> 5"
    from poll_once_effect [OF pass.hyps(2) d5, of client eid wts w] obtain evs where
      c: "calls (world_of (poll_once client eid wts d w)) = calls w @ evs"
      and u: "uuids (world_of (poll_once client eid wts d w)) = uuids w"
      and pb: "published evs = []"
      and sl: "sleeps evs = (case poll_once client eid wts d w of Continue w' d' \<Rightarrow> [d] | _ \<Rightarrow> [])"
      by blast
    show "\<exists>r w' n. wait_loop client eid wts timeout d w = Some (r, w')
           \<and> calls w' = calls w @ new_calls w w'
           \<and> uuids w' = uuids w
           \<and> published (new_calls w w') = []
           \<and> sleeps (new_calls w w') = poll_delays d n
           \<and> (\<forall>m. r \<noteq> Inl (SQSClientError m))"
    proof (cases "poll_once client eid wts d w")
      case (Continue w1 d1)
      from poll_once_next_delay [OF Continue] have d1: "d1 = min (d * 1.5) 5" by simp
      then have "d1 \<le> 5" by simp
      with pass.IH [OF Continue] obtain r w' n where
        l: "wait_loop client eid wts timeout d1 w1 = Some (r, w')"
        and c': "calls w' = calls w1 @ new_calls w1 w'"
        and u': "uuids w' = uuids w1"
        and pb': "published (new_calls w1 w') = []"
        and sl': "sleeps (new_calls w1 w') = poll_delays d1 n"
        and r: "\<forall>m. r \<noteq> Inl (SQSClientError m)" by blast
      from c Continue have c1: "calls w1 = calls w @ evs" by simp
      have nc: "new_calls w w' = evs @ new_calls w1 w'"
        using c1 c' by (rule new_calls_chain)
      have "sleeps (new_calls w w') = poll_delays d (Suc n)"
        using sl sl' by (simp add: nc sleeps_append Continue d1)
      moreover have "wait_loop client eid wts timeout d w = Some (r, w')"
        by (simp add: wait_loop_pass [OF pass.hyps(1)] Continue l)
      moreover have "calls w' = calls w @ new_calls w w'"
        using c' c1 by (simp only: nc) simp
      moreover have "uuids w' = uuids w" using u u' Continue by simp
      moreover have "published (new_calls w w') = []"
        using pb pb' by (simp add: nc published_append)
      ultimately show ?thesis using r by blast
    next
      case (Return v w1)
      have "poll_delays d 0 = []" by simp
      moreover have "wait_loop client eid wts timeout d w = Some (Inr v, w1)"
        by (simp add: wait_loop_pass [OF pass.hyps(1)] Return)
      moreover have "new_calls w w1 = evs" using c Return by (simp add: new_calls_def)
      ultimately show ?thesis using c u pb sl Return
        by (auto intro!: exI [of _ 0])
    next
      case (Raise e w1)
      from poll_once_raise [OF Raise] obtain f where e: "e = Escaped f" by blast
      have "poll_delays d 0 = []" by simp
      moreover have "wait_loop client eid wts timeout d w = Some (Inl e, w1)"
        by (simp add: wait_loop_pass [OF pass.hyps(1)] Raise)
      moreover have "new_calls w w1 = evs" using c Raise by (simp add: new_calls_def)
      ultimately show ?thesis using c u pb sl Raise e
        by (auto intro!: exI [of _ 0])
    qed
  qed
qed

lemma poll_delays_bounds:
  "1/2 \<le> d \<Longrightarrow> d \<le> 5 \<Longrightarrow>
   sorted (poll_delays d n) \<and> (\<forall>x \<in> set (poll_delays d n). d \<le> x \<and> x \<le> 5)"
proof (induction n arbitrary: d)
  case 0
  show ?case by simp
next
  case (Suc n)
  have "1/2 \<le> min (d * 1.5) 5" "min (d * 1.5) 5 \<le> 5" "d \<le> min (d * 1.5) 5"
    using Suc.prems by (simp_all add: min_def)
  with Suc.IH [of "min (d * 1.5) 5"] Suc.prems show ?case by fastforce
qed

lemma wait_loop_timeout_late:
  assumes "1/2 \<le> d"
  shows "wait_loop client eid wts timeout d w = Some (Inl (SQSTimeoutError t), w') \<longrightarrow>
         timeout \<le> now w' \<and> t = ''Timeout waiting for response. Execution ID: '' @ eid"
  using assms
proof (induction d w rule: wait_loop_induct [where client = client and eid = eid and wts = wts and timeout = timeout])
  case (expired d w)
  then show ?case by (auto simp: wait_loop_expired)
next
  case (pass d w)
  show ?case
  proof (cases "poll_once client eid wts d w")
    case (Continue w1 d1)
    from pass.IH [OF Continue] show ?thesis
      by (simp add: wait_loop_pass [OF pass.hyps(1)] Continue)
  next
    case (Return v w1)
    then show ?thesis by (simp add: wait_loop_pass [OF pass.hyps(1)])
  next
    case (Raise e w1)
    from poll_once_raise [OF Raise] Raise show ?thesis
      by (auto simp: wait_loop_pass [OF pass.hyps(1)])
  qed
qed

lemma no_escape_scan_completes:
  assumes "\<forall>n. escaping (change_message_visibility_fault client n) = None"
  shows "scan_completes client eid wts w"
proof (rule ccontr)
  assume a: "\<not> scan_completes client eid wts w"
  have eq: "scan_messages (client\<lparr>change_message_visibility_fault := (\<lambda>n. None)\<rparr>) eid ms mm v =
            scan_messages client eid ms mm v" for ms mm v
    by (rule scan_messages_escaping) (simp add: assms)
  have "\<exists>x. fst (scan_messages (client\<lparr>change_message_visibility_fault := (\<lambda>n. None)\<rparr>) eid ms mm v) = Inr x"
    for ms mm v
    by (induction ms arbitrary: mm v) (auto simp: change_message_visibility_def raised_def)
  then have "\<exists>x. fst (scan_messages client eid ms mm v) = Inr x" for ms mm v
    by (simp add: eq)
  with a show False by (simp add: scan_completes_iff)
qed

lemma wait_loop_no_match:
  assumes "1/2 \<le> d"
    and "\<forall>n. matching eid (batch (receive_message_result client n)) = []"
    and "\<forall>n e. outcome (receive_message_result client n) \<noteq> Inl (OtherException e)"
    and "\<forall>n. escaping (change_message_visibility_fault client n) = None"
  shows "\<exists>w'. wait_loop client eid wts timeout d w =
           Some (Inl (SQSTimeoutError (''Timeout waiting for response. Execution ID: '' @ eid)), w')
         \<and> timeout \<le> now w'"
  using assms(1)
proof (induction d w rule: wait_loop_induct [where client = client and eid = eid and wts = wts and timeout = timeout])
  case (expired d w)
  then show ?case by (simp add: wait_loop_expired)
next
  case (pass d w)
  from assms(2) have m: "matching eid (fetched client w) = []" by (simp add: fetched_def)
  have s: "scan_completes client eid wts w" using assms(4) by (rule no_escape_scan_completes)
  from assms(3) have o: "\<forall>e. outcome (receive_message_result client (length (calls w))) \<noteq> Inl (OtherException e)"
    by blast
  from poll_once_unmatched [OF m s o, of d] obtain w1 where
    p: "poll_once client eid wts d w = Continue w1 (min (d * 1.5) 5)" by blast
  from pass.IH [OF p] show ?case
    by (simp add: wait_loop_pass [OF pass.hyps(1)] p)
qed

lemma wait_for_response_total:
  "\<exists>r w' n. wait_for_response client eid tm wts w = Some (r, w')
      \<and> calls w' = calls w @ new_calls w w'
      \<and> uuids w' = uuids w
      \<and> published (new_calls w w') = []
      \<and> sleeps (new_calls w w') = poll_delays 0.5 n
      \<and> (\<forall>m. r \<noteq> Inl (SQSClientError m))"
proof (cases "in_datetime_range (now w + 60 * of_int tm)")
  case False
  have "poll_delays 0.5 0 = []" by simp
  then show ?thesis
    using False by (auto simp: wait_for_response_def new_calls_def Let_def intro!: exI [of _ 0])
next
  case True
  have "(1/2::rat) \<le> 0.5" "(0.5::rat) \<le> 5" by simp_all
  from wait_loop_total [OF this(1), THEN mp, OF this(2), of client eid wts "now w + 60 * of_int tm" w]
  show ?thesis using True by (simp add: wait_for_response_def Let_def)
qed

section \<open>The calls of one pass\<close>

lemma poll_once_matched_calls:
  assumes "matching eid (fetched client w) \<noteq> []" and "scan_completes client eid wts w"
  shows "new_calls w (world_of (poll_once client eid wts d w)) =
    ReceiveMessage 10 wts # map release (others eid (fetched client w)) @
     (case json_loads client (Body (last (matching eid (fetched client w)))) of
        Inr v \<Rightarrow> DeleteMessage (ReceiptHandle (last (matching eid (fetched client w)))) #
                 (case fst (delete_message client (ReceiptHandle (last (matching eid (fetched client w))))
                              (scanned client eid wts w)) of
                    Inl f \<Rightarrow> [] | Inr u \<Rightarrow> [LogInfo (''Received response for '' @ eid)])
      | Inl (JSONDecodeError e) \<Rightarrow>
          LogWarning (''Invalid JSON in response: '' @ e) #
          release (last (matching eid (fetched client w))) #
          (case escaping (change_message_visibility_fault client
                            (Suc (length (calls (scanned client eid wts w))))) of
             Some x \<Rightarrow> [] | None \<Rightarrow> [Sleep (min d 5)])
      | Inl (LoadsException e) \<Rightarrow> [])"
  by (simp add: poll_once_matched [OF assms] Let_def scanned_eq [OF assms(2)] delete_message_def
        emit_def sleep_def change_message_visibility_def release_def raised_def
        split: sum.splits prod.splits loads_error.splits fault.splits option.splits)

lemma poll_once_unmatched_calls:
  assumes "matching eid (fetched client w) = []" and "scan_completes client eid wts w"
    and "\<forall>e. outcome (receive_message_result client (length (calls w))) \<noteq> Inl (OtherException e)"
  shows "\<exists>logs sl. new_calls w (world_of (poll_once client eid wts d w)) =
           ReceiveMessage 10 wts # logs @ map release (others eid (fetched client w)) @ [Sleep sl]
         \<and> (\<forall>c \<in> set logs. \<exists>t. c = LogWarning t)"
proof -
  from poll_once_unmatched [OF assms, of d] obtain logs sl where
    "poll_once client eid wts d w =
     Continue (w\<lparr>now := now w + of_nat (took (receive_message_result client (length (calls w)))) / 1000000 + sl,
                calls := calls w @ ReceiveMessage 10 wts # logs @ map release (others eid (fetched client w)) @ [Sleep sl]\<rparr>)
              (min (d * 1.5) 5)" and "\<forall>c \<in> set logs. \<exists>t. c = LogWarning t" by blast
  then show ?thesis by auto
qed

lemma poll_once_aborted_calls:
  assumes "\<not> scan_completes client eid wts w"
  shows "\<exists>k. new_calls w (world_of (poll_once client eid wts d w)) =
           ReceiveMessage 10 wts # map release (take k (others eid (fetched client w)))"
proof -
  from poll_once_aborted [OF assms, of d] obtain e where
    p: "poll_once client eid wts d w = Raise (Escaped (OtherException e)) (scanned client eid wts w)"
    by blast
  from scanned_shape [of client eid wts w] obtain k where
    "scanned client eid wts w =
     w\<lparr>now := now w + of_nat (took (receive_message_result client (length (calls w)))) / 1000000,
       calls := calls w @ ReceiveMessage 10 wts #
                map release (take k (others eid (fetched client w)))\<rparr>" by blast
  then have "new_calls w (world_of (poll_once client eid wts d w)) =
           ReceiveMessage 10 wts # map release (take k (others eid (fetched client w)))"
    by (simp add: p)
  then show ?thesis by blast
qed

lemma broken_fetched:
  "outcome (receive_message_result client (length (calls w))) = Inl f \<Longrightarrow> fetched client w = []"
  by (simp add: fetched_def batch_def)



lemma deletes_in_pass:
  "deletes (new_calls w (world_of (poll_once client eid wts d w))) =
     (if scan_completes client eid wts w \<and> matching eid (fetched client w) \<noteq> []
      then case json_loads client (Body (last (matching eid (fetched client w)))) of
             Inr v \<Rightarrow> [ReceiptHandle (last (matching eid (fetched client w)))]
           | Inl e \<Rightarrow> []
      else [])"
proof (cases rule: poll_once_cases [where client = client and w = w and eid = eid and wts = wts])
  case (broken e)
  from broken_fetched [OF broken] show ?thesis
    by (simp add: poll_once_broken [OF broken] matching_def)
next
  case aborted
  from poll_once_aborted_calls [OF aborted, of d] show ?thesis
    by (auto simp: aborted)
next
  case unmatched
  from poll_once_unmatched_calls [OF unmatched(2,1,3), of d]
  show ?thesis by (auto simp: deletes_append logs_quiet unmatched)
next
  case matched
  show ?thesis
    by (auto simp: poll_once_matched_calls [OF matched(2,1)] deletes_append matched release_def
          split: sum.splits loads_error.splits option.splits)
qed





lemma answer_sel [simp]:
  "ReceiptHandle (answer h b e) = h" "Body (answer h b e) = b"
  "msg_execution_id (answer h b e) = Some e"
  by (simp_all add: answer_def msg_execution_id_def)

lemma bare_sel [simp]:
  "ReceiptHandle (bare h b) = h" "Body (bare h b) = b" "msg_execution_id (bare h b) = None"
  by (simp_all add: bare_def msg_execution_id_def)

section \<open>Sending a request\<close>

lemma send_request_failed:
  assumes "send_message_fault client (Suc (length (calls w))) = Some (ClientError e)"
  shows "\<exists>w'. send_request client operation params tm wts w =
           Some (Inl (SQSClientError (''Failed to send request: '' @ e)), w')"
  using assms by (simp add: send_request_def send_message_def raised_def emit_def Let_def)

lemma send_request_sent:
  assumes "send_message_fault client (Suc (length (calls w))) = None"
  shows "send_request client operation params tm wts w =
    wait_for_response client (uuid4 client (uuids w)) tm wts
      (w\<lparr>uuids := Suc (uuids w),
         calls := calls w @
           [LogInfo (''Sending request '' @ uuid4 client (uuids w) @ '' for operation ''
                      @ [CHR 0x27] @ operation @ [CHR 0x27]),
            SendMessage (build_request operation (uuid4 client (uuids w)) (isoformat client (now w)) params),
            LogInfo (''Waiting for response to '' @ uuid4 client (uuids w))]\<rparr>)"
  using assms by (simp add: send_request_def send_message_def raised_def emit_def Let_def)

lemma update_fresh:
  "k \<notin> fst ` set d \<Longrightarrow> AList.update k v d = d @ [(k, v)]"
  by (induction d) auto

lemma dict_update_fresh:
  "distinct (map fst p) \<Longrightarrow> fst ` set p \<inter> fst ` set d = {} \<Longrightarrow> dict_update d p = d @ p"
proof (induction p arbitrary: d)
  case Nil
  show ?case by (simp add: dict_update_def)
next
  case (Cons kv p)
  obtain k v where kv: "kv = (k, v)" by (cases kv)
  from Cons.prems have k: "k \<notin> fst ` set d" by (auto simp: kv)
  from Cons.prems have "distinct (map fst p)" "fst ` set p \<inter> fst ` set (d @ [(k, v)]) = {}"
    by (auto simp: kv)
  from Cons.IH [OF this] show ?case
    by (simp add: dict_update_def kv update_fresh [OF k])
qed

lemma build_request_fresh:
  assumes "distinct (map fst p)"
    and "\<forall>k \<in> set (map fst p). k \<notin> {''operation'', ''execution_id'', ''timestamp''}"
    and "p = (case params of None \<Rightarrow> [] | Some q \<Rightarrow> q)"
  shows "build_request operation eid ts params =
           [(''operation'', JString operation), (''execution_id'', JString eid),
            (''timestamp'', JString ts)] @ p"
proof (cases params)
  case None
  with assms(3) show ?thesis by (simp add: build_request_def)
next
  case (Some q)
  with assms(3) have q: "q = p" by simp
  have "fst ` set p \<inter> fst ` set [(''operation'', JString operation), (''execution_id'', JString eid),
            (''timestamp'', JString ts)] = {}"
    using assms(2) by auto
  from dict_update_fresh [OF assms(1) this] show ?thesis
    by (simp add: build_request_def Some q Let_def)
qed

lemma send_request_failed_world:
  assumes "send_message_fault client (Suc (length (calls w))) = Some f"
  shows "send_request client operation params tm wts w =
           Some (Inl (case f of ClientError e \<Rightarrow> SQSClientError (''Failed to send request: '' @ e)
                      | OtherException e \<Rightarrow> Escaped (OtherException e)),
                 w\<lparr>uuids := Suc (uuids w),
                   calls := calls w @
                     [LogInfo (''Sending request '' @ uuid4 client (uuids w) @ '' for operation ''
                                @ [CHR 0x27] @ operation @ [CHR 0x27]),
                      SendMessage (build_request operation (uuid4 client (uuids w))
                                     (isoformat client (now w)) params)]\<rparr>)"
  using assms
  by (cases f) (simp_all add: send_request_def send_message_def raised_def emit_def Let_def)


section \<open>Rounded differences\<close>

lemma acquire_fresh:
  "acquire fl slept (RateLimiter_init delay) t = (\<lparr>min_delay = delay, last_resolve_time = monotonic t\<rparr>, t)"
  by (simp add: acquire_def RateLimiter_init_def)

lemma acquire_self:
  assumes "acquire fl slept self t0 = (self1, t1)"
  shows "min_delay self1 = min_delay self" and "last_resolve_time self1 = monotonic t1"
  using assms by (auto simp: acquire_def Let_def)

lemma acquire_second:
  assumes "min_delay self1 = m" and "last_resolve_time self1 = monotonic t1" and "0 < monotonic t1"
  shows "snd (acquire fl slept self1 (idle gap t1)) =
           (if fl gap < m
            then \<lparr>monotonic = monotonic t1 + gap + slept (fl (m - fl gap)),
                  waits = waits t1 @ [fl (m - fl gap)]\<rparr>
            else \<lparr>monotonic = monotonic t1 + gap, waits = waits t1\<rparr>)"
  using assms by (simp add: acquire_def Let_def idle_def asyncio_sleep_def)

lemma rounded_wait_bound:
  fixes u m g e wt :: rat
  assumes e: "\<bar>e - g\<bar> \<le> u * \<bar>g\<bar>" and wt: "\<bar>wt - (m - e)\<bar> \<le> u * \<bar>m - e\<bar>"
    and u: "0 \<le> u" "u \<le> 1" and g: "0 \<le> g" and lt: "e < m"
  shows "(1 - u) * m \<le> g + wt"
proof -
  from e g have e1: "e \<le> (1 + u) * g" by (simp add: abs_le_iff algebra_simps)
  from wt lt have "(1 - u) * (m - e) \<le> wt" by (simp add: abs_le_iff algebra_simps)
  moreover have "(1 - u) * (m - (1 + u) * g) \<le> (1 - u) * (m - e)"
    using e1 u by (intro mult_left_mono) simp_all
  moreover have "(1 - u) * (m - (1 + u) * g) = (1 - u) * m - g + u * u * g"
    by (simp add: algebra_simps)
  moreover have "0 \<le> u * u * g" using u g by simp
  ultimately show ?thesis by linarith
qed

lemma rounded_gap_bound:
  fixes u m g e :: rat
  assumes e: "\<bar>e - g\<bar> \<le> u * \<bar>g\<bar>"
    and u: "0 \<le> u" "u \<le> 1" and g: "0 \<le> g" and ge: "m \<le> e"
  shows "(1 - u) * m \<le> g"
proof -
  from e g have e1: "e \<le> (1 + u) * g" by (simp add: abs_le_iff algebra_simps)
  have "(1 - u) * m \<le> (1 - u) * e" using ge u by (intro mult_left_mono) simp_all
  also have "\<dots> \<le> (1 - u) * ((1 + u) * g)" using e1 u by (intro mult_left_mono) simp_all
  also have "\<dots> = g - u * u * g" by (simp add: algebra_simps)
  also have "\<dots> \<le> g" using u g by simp
  finally show ?thesis .
qed

section \<open>C1: which matching message is returned\<close>

text \<open>
  C1, as amended. Whenever a pass of the polling loop (any pass of any call: the deadline
  not yet reached, any backoff delay, any world) fetches a batch that holds at least one
  message whose \<^verbatim>\<open>ExecutionId\<close> attribute equals the target, the call returns the
  payload of the last such message of that batch, provided the scan of the batch runs to
  its end (no release of a non-matching message raises anything but \<^verbatim>\<open>ClientError\<close>),
  the body of that message parses as JSON and the \<^verbatim>\<open>delete_message\<close> call for it
  succeeds. Whatever else the batch or later batches hold makes no difference.
\<close>

theorem wait_returns_last_match:
  assumes "now w < timeout"
    and "matching eid (fetched client w) \<noteq> []"
    and "scan_completes client eid wts w"
    and "json_loads client (Body (last (matching eid (fetched client w)))) = Inr v"
    and "fst (delete_message client (ReceiptHandle (last (matching eid (fetched client w))))
                (scanned client eid wts w)) = Inr ()"
  shows "wait_loop client eid wts timeout d w =
           Some (Inr v,
                 emit (LogInfo (''Received response for '' @ eid))
                   (snd (delete_message client (ReceiptHandle (last (matching eid (fetched client w))))
                           (scanned client eid wts w))))"
  using assms(4,5)
  by (auto simp: wait_loop_pass [OF assms(1)] poll_once_matched [OF assms(2,3)] Let_def
        split: prod.splits sum.splits)

text \<open>A batch with two matching messages and one without attributes: the second answer is returned.\<close>

theorem wait_returns_last_match_witness:
  "now world0 < 60
   \<and> matching ''x'' (fetched (scripted None
         (delivers 0 [answer ''h1'' ''1'' ''x'', bare ''h0'' ''0'', answer ''h2'' ''2'' ''x''])
         no_faults) world0) = [answer ''h1'' ''1'' ''x'', answer ''h2'' ''2'' ''x'']
   \<and> scan_completes (scripted None
         (delivers 0 [answer ''h1'' ''1'' ''x'', bare ''h0'' ''0'', answer ''h2'' ''2'' ''x''])
         no_faults) ''x'' 3 world0
   \<and> json_loads (scripted None
         (delivers 0 [answer ''h1'' ''1'' ''x'', bare ''h0'' ''0'', answer ''h2'' ''2'' ''x''])
         no_faults) ''2'' = Inr (JInt 2)
   \<and> wait_loop (scripted None
         (delivers 0 [answer ''h1'' ''1'' ''x'', bare ''h0'' ''0'', answer ''h2'' ''2'' ''x''])
         no_faults) ''x'' 3 60 (1/2) world0 =
       Some (Inr (JInt 2),
             \<lparr>now = 0,
              calls = [ReceiveMessage 10 3, ChangeMessageVisibility ''h0'' 0, DeleteMessage ''h2'',
                       LogInfo ''Received response for x''],
              uuids = 0\<rparr>)"
proof -
  let ?C = "scripted None
         (delivers 0 [answer ''h1'' ''1'' ''x'', bare ''h0'' ''0'', answer ''h2'' ''2'' ''x''])
         no_faults"
  have t: "now world0 < 60" by (simp add: world0_def)
  have m: "matching ''x'' (fetched ?C world0) = [answer ''h1'' ''1'' ''x'', answer ''h2'' ''2'' ''x'']"
    by (simp add: matching_def fetched_def batch_def scripted_def delivers_def)
  have o: "others ''x'' (fetched ?C world0) = [bare ''h0'' ''0'']"
    by (simp add: others_def fetched_def batch_def scripted_def delivers_def)
  have s: "scan_completes ?C ''x'' 3 world0"
    by (rule no_escape_scan_completes) (simp add: scripted_def)
  have ne: "matching ''x'' (fetched ?C world0) \<noteq> []" by (simp add: m)
  have j: "json_loads ?C (Body (last (matching ''x'' (fetched ?C world0)))) = Inr (JInt 2)"
    by (simp add: m) (simp add: scripted_def toy_loads_def)
  have d: "fst (delete_message ?C (ReceiptHandle (last (matching ''x'' (fetched ?C world0))))
                  (scanned ?C ''x'' 3 world0)) = Inr ()"
    by (simp add: delete_message_def raised_def scripted_def)
  have "wait_loop ?C ''x'' 3 60 (1/2) world0 =
       Some (Inr (JInt 2),
             \<lparr>now = 0,
              calls = [ReceiveMessage 10 3, ChangeMessageVisibility ''h0'' 0, DeleteMessage ''h2'',
                       LogInfo ''Received response for x''],
              uuids = 0\<rparr>)"
    unfolding wait_returns_last_match [OF t ne s j d, of "1/2"]
    by (simp add: m o scanned_eq [OF s] delete_message_def emit_def release_def)
       (simp add: world0_def scripted_def delivers_def)
  moreover have "json_loads ?C ''2'' = Inr (JInt 2)" by (simp add: scripted_def toy_loads_def)
  ultimately show ?thesis using t m s by blast
qed

text \<open>
  C1 as stated fails: with two matching messages in the first batch the call returns the
  payload of the second, while the first one carries another payload. Nor does a matching
  message in the batch always lead to a payload: when the release of a stray message before
  it finds the service unreachable, the call ends with that exception.
\<close>

theorem first_match_counterexample:
  "map_option fst (wait_for_response
      (scripted None (delivers 0 [answer ''h1'' ''1'' ''x'', answer ''h2'' ''2'' ''x'']) no_faults)
      ''x'' 5 3 world0) = Some (Inr (JInt 2))
   \<and> json_loads (scripted None (delivers 0 [answer ''h1'' ''1'' ''x'', answer ''h2'' ''2'' ''x'']) no_faults)
        (Body (hd (matching ''x'' (fetched
           (scripted None (delivers 0 [answer ''h1'' ''1'' ''x'', answer ''h2'' ''2'' ''x'']) no_faults) world0))))
      = Inr (JInt 1)
   \<and> matching ''x'' (fetched
        ((scripted None (delivers 0 [bare ''h0'' ''0'', answer ''h1'' ''1'' ''x'']) no_faults)
           \<lparr>change_message_visibility_fault := unreachable\<rparr>) world0) = [answer ''h1'' ''1'' ''x'']
   \<and> map_option fst (wait_for_response
        ((scripted None (delivers 0 [bare ''h0'' ''0'', answer ''h1'' ''1'' ''x'']) no_faults)
           \<lparr>change_message_visibility_fault := unreachable\<rparr>) ''x'' 5 3 world0) =
       Some (Inl (Escaped (OtherException ''EndpointConnectionError'')))"
  by (simp add: wait_for_response_def in_datetime_range_def datetime_max_def wait_loop_pass
        poll_once_def receive_message_def change_message_visibility_def
        world0_def scripted_def delivers_def answer_def bare_def toy_loads_def
        matching_def fetched_def batch_def msg_execution_id_def
        delete_message_def raised_def emit_def)

section \<open>C2: messages for somebody else\<close>




section \<open>C3: the matched message\<close>

text \<open>
  C3 does not hold of the code. The message a pass selects is parsed and deleted inside
  one \<^verbatim>\<open>try\<close> whose only handler is \<^verbatim>\<open>except json.JSONDecodeError\<close>. Here the body of
  the one matching message parses, \<^verbatim>\<open>delete_message\<close> raises \<^verbatim>\<open>ClientError\<close>, and the
  call ends with that \<^verbatim>\<open>ClientError\<close>: the payload is not returned, and
  \<^verbatim>\<open>handle_error\<close> reports an unexpected error. Every other call into boto3 is guarded by
  \<^verbatim>\<open>except ClientError\<close>, and the docstring of \<^verbatim>\<open>send_request\<close> promises
  \<^verbatim>\<open>SQSClientError\<close> for SQS-related errors. In the second run \<^verbatim>\<open>json.loads\<close> raises
  \<^verbatim>\<open>RecursionError\<close>, which is not a \<^verbatim>\<open>JSONDecodeError\<close>: the call ends with it, nothing
  is logged and the message is not released.
\<close>

theorem matched_delete_failure:
  "json_loads (scripted None (delivers 0 [answer ''h1'' ''1'' ''x'']) access_denied)
      (Body (answer ''h1'' ''1'' ''x'')) = Inr (JInt 1)
   \<and> matching ''x'' (fetched (scripted None (delivers 0 [answer ''h1'' ''1'' ''x''])
                                access_denied) world0) = [answer ''h1'' ''1'' ''x'']
   \<and> wait_for_response
        (scripted None (delivers 0 [answer ''h1'' ''1'' ''x'']) access_denied)
        ''x'' 5 3 world0 =
       Some (Inl (Escaped (ClientError ''AccessDenied'')),
             \<lparr>now = 0, calls = [ReceiveMessage 10 3, DeleteMessage ''h1''], uuids = 0\<rparr>)
   \<and> handle_error (Escaped (ClientError ''AccessDenied'')) = ''Unexpected error: AccessDenied''
   \<and> wait_for_response
        ((scripted None (delivers 0 [answer ''h1'' ''1'' ''x'']) no_faults)
           \<lparr>json_loads := nested_loads\<rparr>)
        ''x'' 5 3 world0 =
       Some (Inl (Escaped (OtherException ''maximum recursion depth exceeded'')),
             \<lparr>now = 0, calls = [ReceiveMessage 10 3], uuids = 0\<rparr>)"
  by (simp add: wait_for_response_def in_datetime_range_def datetime_max_def wait_loop_pass
        poll_once_def receive_message_def handle_error_def
        world0_def scripted_def delivers_def answer_def toy_loads_def nested_loads_def
        matching_def fetched_def batch_def msg_execution_id_def
        delete_message_def raised_def emit_def)

section \<open>C4: the backoff delay\<close>

text \<open>
  C4. Every call of \<^verbatim>\<open>_wait_for_response\<close> ends, and the delays it slept are, in order,
  the values \<open>0.5, min (0.5 * 1.5) 5, \<dots>\<close>: an initial segment of the sequence that starts
  at 0.5 and continues by \<open>d \<mapsto> min (d * 1.5) 5.0\<close>. That sequence is non-decreasing
  and stays between 0.5 and 5, it is never reset during the call, and each call starts it
  again at 0.5 whatever happened before. Every pass that goes on hands the next pass the
  delay \<open>min (d * 1.5) 5.0\<close>. All values of the sequence are binary fractions with few
  digits, so the rational arithmetic here is the floating-point arithmetic of the source.
\<close>

theorem backoff_sequence:
  "\<exists>r w' n. wait_for_response client eid tm wts w = Some (r, w')
      \<and> sleeps (new_calls w w') = poll_delays 0.5 n
      \<and> sorted (poll_delays 0.5 n)
      \<and> (\<forall>x \<in> set (poll_delays 0.5 n). 0.5 \<le> x \<and> x \<le> 5.0)
      \<and> (\<forall>d v v' d'. poll_once client eid wts d v = Continue v' d' \<longrightarrow> d' = min (d * 1.5) 5.0)"
proof -
  from wait_for_response_total [of client eid tm wts w]
  obtain r w' n where "wait_for_response client eid tm wts w = Some (r, w')"
    and "sleeps (new_calls w w') = poll_delays 0.5 n" by blast
  moreover have "sorted (poll_delays 0.5 n) \<and> (\<forall>x \<in> set (poll_delays 0.5 n). 0.5 \<le> x \<and> x \<le> 5.0)"
    using poll_delays_bounds [of "0.5" n] by simp
  ultimately show ?thesis
    using poll_once_next_delay by blast
qed

text \<open>A call of one minute on a channel whose empty long polls take 25 seconds each: three sleeps.\<close>

theorem backoff_sequence_witness:
  "\<exists>r w' n. wait_for_response (scripted None (delivers 25000000 []) no_faults) ''x'' 1 3 world0 = Some (r, w')
      \<and> sleeps (new_calls world0 w') = poll_delays 0.5 n
      \<and> sleeps (new_calls world0 w') = [1/2, 3/4, 9/8]
      \<and> sorted (poll_delays 0.5 n)
      \<and> (\<forall>x \<in> set (poll_delays 0.5 n). 0.5 \<le> x \<and> x \<le> 5.0)"
proof -
  let ?C = "scripted None (delivers 25000000 []) no_faults"
  have run: "wait_for_response ?C ''x'' 1 3 world0 =
      Some (Inl (SQSTimeoutError ''Timeout waiting for response. Execution ID: x''),
            \<lparr>now = 619/8,
             calls = [ReceiveMessage 10 3, Sleep (1/2), ReceiveMessage 10 3, Sleep (3/4),
                      ReceiveMessage 10 3, Sleep (9/8)],
             uuids = 0\<rparr>)"
    by (simp add: wait_for_response_def in_datetime_range_def datetime_max_def
          wait_loop_pass wait_loop_expired poll_once_def
          receive_message_def sleep_def world0_def scripted_def delivers_def)
  from backoff_sequence [of ?C "''x''" 1 3 world0] obtain r w' n where
    a: "wait_for_response ?C ''x'' 1 3 world0 = Some (r, w')"
    and b: "sleeps (new_calls world0 w') = poll_delays 0.5 n"
    and c: "sorted (poll_delays 0.5 n)"
    and d: "\<forall>x \<in> set (poll_delays 0.5 n). 0.5 \<le> x \<and> x \<le> 5.0"
    by blast
  from a run have "sleeps (new_calls world0 w') = [1/2, 3/4, 9/8]"
    by (auto simp: new_calls_def world0_def)
  with a b c d show ?thesis by blast
qed

section \<open>C5: the deadline\<close>

text \<open>
  C5, as amended. If no batch the channel ever delivers holds a message matching the
  target, the deadline \<open>start_time + timeout_minutes\<close> is an instant a \<^verbatim>\<open>datetime\<close> can
  hold, and no \<^verbatim>\<open>receive_message\<close> and no release raises anything but \<^verbatim>\<open>ClientError\<close>,
  then the call ends, it ends with \<^verbatim>\<open>SQSTimeoutError\<close>, the text of the error ends with
  the execution id, and at that moment the clock has reached the deadline. And whatever the
  channel does, a call that ends with \<^verbatim>\<open>SQSTimeoutError\<close> ends at or after the deadline,
  with that text.
\<close>

theorem timeout_when_nothing_matches:
  "((\<forall>n. matching eid (batch (receive_message_result client n)) = [])
      \<and> in_datetime_range (now w + 60 * of_int tm)
      \<and> (\<forall>n e. outcome (receive_message_result client n) \<noteq> Inl (OtherException e))
      \<and> (\<forall>n. escaping (change_message_visibility_fault client n) = None) \<longrightarrow>
      (\<exists>w'. wait_for_response client eid tm wts w =
           Some (Inl (SQSTimeoutError (''Timeout waiting for response. Execution ID: '' @ eid)), w')
         \<and> now w + 60 * of_int tm \<le> now w'))
   \<and> (\<forall>t w'. wait_for_response client eid tm wts w = Some (Inl (SQSTimeoutError t), w') \<longrightarrow>
         now w + 60 * of_int tm \<le> now w'
         \<and> t = ''Timeout waiting for response. Execution ID: '' @ eid)"
proof -
  have d: "(1/2::rat) \<le> 0.5" by simp
  have "\<exists>w'. wait_for_response client eid tm wts w =
           Some (Inl (SQSTimeoutError (''Timeout waiting for response. Execution ID: '' @ eid)), w')
         \<and> now w + 60 * of_int tm \<le> now w'"
    if "\<forall>n. matching eid (batch (receive_message_result client n)) = []"
      and "in_datetime_range (now w + 60 * of_int tm)"
      and "\<forall>n e. outcome (receive_message_result client n) \<noteq> Inl (OtherException e)"
      and "\<forall>n. escaping (change_message_visibility_fault client n) = None"
    using wait_loop_no_match [OF d that(1,3,4)] that(2) by (simp add: wait_for_response_def)
  moreover have "now w + 60 * of_int tm \<le> now w'
         \<and> t = ''Timeout waiting for response. Execution ID: '' @ eid"
    if "wait_for_response client eid tm wts w = Some (Inl (SQSTimeoutError t), w')" for t w'
    using wait_loop_timeout_late [OF d, of client eid wts "now w + 60 * of_int tm" w t w'] that
    by (simp add: wait_for_response_def Let_def split: if_splits)
  ultimately show ?thesis by blast
qed

text \<open>A channel that only ever delivers messages for others, and a deadline of one minute.\<close>

theorem timeout_when_nothing_matches_witness:
  "(\<forall>n. matching ''x'' (batch (receive_message_result
        (scripted None (delivers 40000000 [bare ''h0'' ''0'', answer ''h1'' ''1'' ''y'']) no_faults) n)) = [])
   \<and> in_datetime_range (now world2024 + 60 * of_int 1)
   \<and> (\<exists>w'. wait_for_response (scripted None (delivers 40000000 [bare ''h0'' ''0'', answer ''h1'' ''1'' ''y''])
               no_faults) ''x'' 1 3 world2024 =
           Some (Inl (SQSTimeoutError ''Timeout waiting for response. Execution ID: x''), w')
         \<and> now world2024 + 60 * of_int 1 \<le> now w')"
proof -
  let ?C = "scripted None (delivers 40000000 [bare ''h0'' ''0'', answer ''h1'' ''1'' ''y'']) no_faults"
  have h: "\<forall>n. matching ''x'' (batch (receive_message_result ?C n)) = []"
    by (simp add: matching_def batch_def scripted_def delivers_def)
  have r: "in_datetime_range (now world2024 + 60 * of_int 1)"
    by (simp add: in_datetime_range_def datetime_max_def world2024_def)
  have o: "\<forall>n e. outcome (receive_message_result ?C n) \<noteq> Inl (OtherException e)"
    by (simp add: scripted_def delivers_def)
  have e: "\<forall>n. escaping (change_message_visibility_fault ?C n) = None"
    by (simp add: scripted_def)
  from timeout_when_nothing_matches [of "''x''" ?C world2024 1 3, THEN conjunct1, THEN mp,
         OF conjI [OF h conjI [OF r conjI [OF o e]]]] h r
  show ?thesis by simp
qed

text \<open>
  C5 as stated fails. With a timeout of \<open>2 ^ 32\<close> minutes the deadline lies beyond
  \<^verbatim>\<open>datetime.max\<close> and the call ends with \<^verbatim>\<open>OverflowError\<close> before the first poll; and
  on a channel that cannot be reached the call ends with the exception of
  \<^verbatim>\<open>receive_message\<close>. Neither run observes a matching message.
\<close>

theorem no_timeout_counterexample:
  "matching ''x'' (batch (breaks 0)) = []
   \<and> wait_for_response (scripted None (delivers 0 []) no_faults) ''x'' 4294967296 3 world2024 =
       Some (Inl OverflowError, world2024)
   \<and> wait_for_response (scripted None breaks no_faults) ''x'' 5 3 world2024 =
       Some (Inl (Escaped (OtherException ''EndpointConnectionError'')),
             \<lparr>now = 63839664000, calls = [ReceiveMessage 10 3], uuids = 0\<rparr>)"
  by (simp add: wait_for_response_def in_datetime_range_def datetime_max_def wait_loop_pass
        poll_once_def receive_message_def matching_def batch_def breaks_def
        world2024_def scripted_def delivers_def)

section \<open>C6: failing to send\<close>

text \<open>
  C6, as amended. \<^verbatim>\<open>send_request\<close> ends with an error of class \<^verbatim>\<open>SQSClientError\<close>
  itself if and only if its \<^verbatim>\<open>send_message\<close> call (the second entry it adds to the
  trace) raises \<^verbatim>\<open>ClientError\<close>, and the error then carries the text of that failure. A
  publish that fails with any other exception ends \<^verbatim>\<open>send_request\<close> with that exception
  as it is. An \<^verbatim>\<open>SQSClientError\<close> is not a \<^verbatim>\<open>SQSTimeoutError\<close>, and \<^verbatim>\<open>handle_error\<close>
  answers the two differently.
\<close>

theorem channel_error_iff_publish_fails:
  "((\<exists>m w'. send_request client operation params tm wts w = Some (Inl (SQSClientError m), w'))
      \<longleftrightarrow> (\<exists>e. send_message_fault client (Suc (length (calls w))) = Some (ClientError e)))
   \<and> (\<forall>e. send_message_fault client (Suc (length (calls w))) = Some (ClientError e) \<longrightarrow>
         (\<exists>w'. send_request client operation params tm wts w =
                  Some (Inl (SQSClientError (''Failed to send request: '' @ e)), w')))
   \<and> (\<forall>e. send_message_fault client (Suc (length (calls w))) = Some (OtherException e) \<longrightarrow>
         (\<exists>w'. send_request client operation params tm wts w =
                  Some (Inl (Escaped (OtherException e)), w')))
   \<and> (\<forall>m t. SQSClientError m \<noteq> SQSTimeoutError t
            \<and> handle_error (SQSClientError m) \<noteq> handle_error (SQSTimeoutError t))"
proof (intro conjI allI impI)
  show "(\<exists>m w'. send_request client operation params tm wts w = Some (Inl (SQSClientError m), w'))
      \<longleftrightarrow> (\<exists>e. send_message_fault client (Suc (length (calls w))) = Some (ClientError e))"
  proof (cases "send_message_fault client (Suc (length (calls w)))")
    case None
    define w1 where "w1 = w\<lparr>uuids := Suc (uuids w),
         calls := calls w @
           [LogInfo (''Sending request '' @ uuid4 client (uuids w) @ '' for operation ''
                      @ [CHR 0x27] @ operation @ [CHR 0x27]),
            SendMessage (build_request operation (uuid4 client (uuids w)) (isoformat client (now w)) params),
            LogInfo (''Waiting for response to '' @ uuid4 client (uuids w))]\<rparr>"
    have s: "send_request client operation params tm wts w =
             wait_for_response client (uuid4 client (uuids w)) tm wts w1"
      unfolding w1_def by (rule send_request_sent [OF None])
    from wait_for_response_total [of client "uuid4 client (uuids w)" tm wts w1]
    obtain r w' where "wait_for_response client (uuid4 client (uuids w)) tm wts w1 = Some (r, w')"
      and "\<forall>m. r \<noteq> Inl (SQSClientError m)" by blast
    then have "\<not> (\<exists>m w'. send_request client operation params tm wts w = Some (Inl (SQSClientError m), w'))"
      by (auto simp: s)
    then show ?thesis by (simp add: None)
  next
    case (Some f)
    show ?thesis
      by (cases f) (simp_all add: send_request_failed_world [OF Some] Some)
  qed
next
  fix e assume "send_message_fault client (Suc (length (calls w))) = Some (ClientError e)"
  then show "\<exists>w'. send_request client operation params tm wts w =
                  Some (Inl (SQSClientError (''Failed to send request: '' @ e)), w')"
    by (rule send_request_failed)
next
  fix e assume a: "send_message_fault client (Suc (length (calls w))) = Some (OtherException e)"
  show "\<exists>w'. send_request client operation params tm wts w =
                  Some (Inl (Escaped (OtherException e)), w')"
    by (simp add: send_request_failed_world [OF a])
qed (simp_all add: handle_error_def)

text \<open>A channel that refuses the request, and one that accepts it.\<close>

theorem channel_error_iff_publish_fails_witness:
  "send_message_fault (scripted (Some (ClientError ''AccessDenied'')) (delivers 0 []) no_faults)
      (Suc (length (calls world0))) = Some (ClientError ''AccessDenied'')
   \<and> (\<exists>w'. send_request (scripted (Some (ClientError ''AccessDenied'')) (delivers 0 []) no_faults)
               ''tws_health'' None 2 3 world0
               = Some (Inl (SQSClientError ''Failed to send request: AccessDenied''), w'))
   \<and> send_message_fault (scripted None (delivers 0 []) no_faults) (Suc (length (calls world0))) = None
   \<and> \<not> (\<exists>m w'. send_request (scripted None (delivers 0 []) no_faults) ''tws_health'' None 2 3 world0
               = Some (Inl (SQSClientError m), w'))"
proof -
  have f: "send_message_fault (scripted (Some (ClientError ''AccessDenied'')) (delivers 0 []) no_faults)
             (Suc (length (calls world0))) = Some (ClientError ''AccessDenied'')"
    by (simp add: scripted_def)
  have g: "send_message_fault (scripted None (delivers 0 []) no_faults) (Suc (length (calls world0))) = None"
    by (simp add: scripted_def)
  from channel_error_iff_publish_fails
         [of "scripted (Some (ClientError ''AccessDenied'')) (delivers 0 []) no_faults" "''tws_health''" None 2 3 world0]
       channel_error_iff_publish_fails
         [of "scripted None (delivers 0 []) no_faults" "''tws_health''" None 2 3 world0]
       f g
  show ?thesis by (simp only: append.simps) blast
qed

text \<open>
  C6 as stated fails: the publish fails at the transport with
  \<^verbatim>\<open>EndpointConnectionError\<close>, and what \<^verbatim>\<open>send_request\<close> raises is not an
  \<^verbatim>\<open>SQSClientError\<close>; \<^verbatim>\<open>handle_error\<close> reports an unexpected error.
\<close>

theorem publish_failure_counterexample:
  "send_message_fault (scripted (Some (OtherException ''EndpointConnectionError'')) (delivers 0 []) no_faults)
      (Suc (length (calls world0))) = Some (OtherException ''EndpointConnectionError'')
   \<and> send_request (scripted (Some (OtherException ''EndpointConnectionError'')) (delivers 0 []) no_faults)
        ''tws_health'' None 2 3 world0 =
       Some (Inl (Escaped (OtherException ''EndpointConnectionError'')),
             \<lparr>now = 0,
              calls = [LogInfo (''Sending request id- for operation '' @ [CHR 0x27] @ ''tws_health'' @ [CHR 0x27]),
                       SendMessage [(''operation'', JString ''tws_health''),
                                    (''execution_id'', JString ''id-''),
                                    (''timestamp'', JString ''2024-01-01T00:00:00'')]],
              uuids = 1\<rparr>)
   \<and> \<not> isinstance_SQSClientError (Escaped (OtherException ''EndpointConnectionError''))
   \<and> handle_error (Escaped (OtherException ''EndpointConnectionError'')) =
       ''Unexpected error: EndpointConnectionError''"
  by (simp add: send_request_def send_message_def raised_def emit_def Let_def build_request_def
        handle_error_def scripted_def world0_def)

section \<open>C7: duplicates in one batch\<close>

text \<open>
  C7. When a batch holds more than one matching message, the calls of the pass are the
  fetch, releases of non-matching messages and, after them, at most one call on a message:
  a delete or a release of the last matching one. So at most one delete is issued in the
  pass, and none for the other matching messages. When the scan of the batch runs to its
  end and \<^verbatim>\<open>json.loads\<close> raises nothing but \<^verbatim>\<open>JSONDecodeError\<close>, every non-matching
  message is released and exactly one such call is made.
\<close>

theorem one_match_acted_on:
  assumes "1 < length (matching eid (fetched client w))"
  shows "(\<exists>k acts. new_calls w (world_of (poll_once client eid wts d w)) =
                  ReceiveMessage 10 wts # map release (take k (others eid (fetched client w))) @ acts
              \<and> (filter on_message acts = []
                 \<or> filter on_message acts = [DeleteMessage (ReceiptHandle (last (matching eid (fetched client w))))]
                 \<or> filter on_message acts = [release (last (matching eid (fetched client w)))]))
       \<and> (deletes (new_calls w (world_of (poll_once client eid wts d w))) = []
          \<or> deletes (new_calls w (world_of (poll_once client eid wts d w))) =
               [ReceiptHandle (last (matching eid (fetched client w)))])
       \<and> (scan_completes client eid wts w
            \<and> (\<forall>e. json_loads client (Body (last (matching eid (fetched client w)))) \<noteq> Inl (LoadsException e))
          \<longrightarrow> (\<exists>acts. new_calls w (world_of (poll_once client eid wts d w)) =
                  ReceiveMessage 10 wts # map release (others eid (fetched client w)) @ acts
              \<and> (filter on_message acts = [DeleteMessage (ReceiptHandle (last (matching eid (fetched client w))))]
                 \<or> filter on_message acts = [release (last (matching eid (fetched client w)))])))"
proof -
  let ?new = "new_calls w (world_of (poll_once client eid wts d w))"
  let ?last = "last (matching eid (fetched client w))"
  from assms have ne: "matching eid (fetched client w) \<noteq> []" by auto
  have del: "deletes ?new = [] \<or> deletes ?new = [ReceiptHandle ?last]"
    by (cases "scan_completes client eid wts w";
        cases "json_loads client (Body ?last)")
       (simp_all only: deletes_in_pass, simp_all add: ne)
  have full: "\<exists>acts. ?new = ReceiveMessage 10 wts # map release (others eid (fetched client w)) @ acts
              \<and> (filter on_message acts = [DeleteMessage (ReceiptHandle ?last)]
                 \<or> filter on_message acts = [release ?last])"
    if s: "scan_completes client eid wts w"
      and l: "\<forall>e. json_loads client (Body ?last) \<noteq> Inl (LoadsException e)"
    using l
    by (simp add: poll_once_matched_calls [OF ne s] release_def
          split: sum.splits loads_error.splits option.splits)
  have part: "\<exists>k acts. ?new = ReceiveMessage 10 wts # map release (take k (others eid (fetched client w))) @ acts
              \<and> (filter on_message acts = []
                 \<or> filter on_message acts = [DeleteMessage (ReceiptHandle ?last)]
                 \<or> filter on_message acts = [release ?last])"
  proof (cases "scan_completes client eid wts w")
    case False
    from poll_once_aborted_calls [OF False, of d] obtain k where
      "?new = ReceiveMessage 10 wts # map release (take k (others eid (fetched client w))) @ []"
      by auto
    then show ?thesis by (intro exI [of _ k] exI [of _ "[]"]) simp
  next
    case True
    have "\<exists>acts. ?new = ReceiveMessage 10 wts #
                 map release (take (length (others eid (fetched client w))) (others eid (fetched client w))) @ acts
              \<and> (filter on_message acts = []
                 \<or> filter on_message acts = [DeleteMessage (ReceiptHandle ?last)]
                 \<or> filter on_message acts = [release ?last])"
      by (simp add: poll_once_matched_calls [OF ne True] release_def
            split: sum.splits loads_error.splits option.splits)
    then show ?thesis by blast
  qed
  from del full part show ?thesis by blast
qed

text \<open>Two copies of the answer around a stray message: one delete, for the later copy.\<close>

theorem one_match_acted_on_witness:
  "1 < length (matching ''x'' (fetched (scripted None
         (delivers 0 [answer ''h1'' ''1'' ''x'', bare ''h0'' ''0'', answer ''h2'' ''2'' ''x'']) no_faults) world0))
   \<and> scan_completes (scripted None
         (delivers 0 [answer ''h1'' ''1'' ''x'', bare ''h0'' ''0'', answer ''h2'' ''2'' ''x'']) no_faults) ''x'' 3 world0
   \<and> new_calls world0 (world_of (poll_once (scripted None
         (delivers 0 [answer ''h1'' ''1'' ''x'', bare ''h0'' ''0'', answer ''h2'' ''2'' ''x'']) no_faults) ''x'' 3 (1/2) world0))
       = [ReceiveMessage 10 3, ChangeMessageVisibility ''h0'' 0, DeleteMessage ''h2'',
          LogInfo ''Received response for x'']
   \<and> deletes (new_calls world0 (world_of (poll_once (scripted None
         (delivers 0 [answer ''h1'' ''1'' ''x'', bare ''h0'' ''0'', answer ''h2'' ''2'' ''x'']) no_faults) ''x'' 3 (1/2) world0)))
       = [''h2'']"
proof -
  let ?C = "scripted None
         (delivers 0 [answer ''h1'' ''1'' ''x'', bare ''h0'' ''0'', answer ''h2'' ''2'' ''x'']) no_faults"
  have m: "matching ''x'' (fetched ?C world0) = [answer ''h1'' ''1'' ''x'', answer ''h2'' ''2'' ''x'']"
    by (simp add: matching_def fetched_def batch_def scripted_def delivers_def)
  have h: "1 < length (matching ''x'' (fetched ?C world0))" by (simp add: m)
  have s: "scan_completes ?C ''x'' 3 world0"
    by (rule no_escape_scan_completes) (simp add: scripted_def)
  have c: "new_calls world0 (world_of (poll_once ?C ''x'' 3 (1/2) world0))
       = [ReceiveMessage 10 3, ChangeMessageVisibility ''h0'' 0, DeleteMessage ''h2'',
          LogInfo ''Received response for x'']"
    by (simp add: poll_once_def receive_message_def
        world0_def scripted_def delivers_def answer_def bare_def toy_loads_def new_calls_def
        msg_execution_id_def change_message_visibility_def
        delete_message_def raised_def emit_def)
  from one_match_acted_on [OF h, of 3 "1/2"] c h s
  show ?thesis by (auto simp: m)
qed

section \<open>C8: the request envelope\<close>

text \<open>
  C8. When the keys of the caller's parameters are none of \<^verbatim>\<open>operation\<close>,
  \<^verbatim>\<open>execution_id\<close> (the key under which the source stores the correlation id) and
  \<^verbatim>\<open>timestamp\<close>, the one message \<^verbatim>\<open>send_request\<close> publishes is the three envelope
  entries (the operation, the identifier drawn from \<^verbatim>\<open>uuid4\<close> for this call, the
  ISO-8601 text of the current time) followed by the parameters unchanged. Each call draws
  the next identifier of the \<^verbatim>\<open>uuid4\<close> stream and moves the stream on by one, so no
  draw serves two calls.
\<close>

theorem envelope_is_flat_merge:
  assumes "distinct (map fst p)"
    and "\<forall>k \<in> set (map fst p). k \<notin> {''operation'', ''execution_id'', ''timestamp''}"
    and "p = (case params of None \<Rightarrow> [] | Some q \<Rightarrow> q)"
  shows "\<exists>r w'. send_request client operation params tm wts w = Some (r, w')
           \<and> published (new_calls w w') =
               [[(''operation'', JString operation),
                 (''execution_id'', JString (uuid4 client (uuids w))),
                 (''timestamp'', JString (isoformat client (now w)))] @ p]
           \<and> uuids w' = Suc (uuids w)"
proof (cases "send_message_fault client (Suc (length (calls w)))")
  case (Some e)
  show ?thesis
    by (simp add: send_request_failed_world [OF Some] build_request_fresh [OF assms])
next
  case None
  define evs where "evs =
           [LogInfo (''Sending request '' @ uuid4 client (uuids w) @ '' for operation ''
                      @ [CHR 0x27] @ operation @ [CHR 0x27]),
            SendMessage (build_request operation (uuid4 client (uuids w)) (isoformat client (now w)) params),
            LogInfo (''Waiting for response to '' @ uuid4 client (uuids w))]"
  define w1 where "w1 = w\<lparr>uuids := Suc (uuids w), calls := calls w @ evs\<rparr>"
  have s: "send_request client operation params tm wts w =
             wait_for_response client (uuid4 client (uuids w)) tm wts w1"
    unfolding w1_def evs_def by (rule send_request_sent [OF None])
  from wait_for_response_total [of client "uuid4 client (uuids w)" tm wts w1]
  obtain r w' where r: "wait_for_response client (uuid4 client (uuids w)) tm wts w1 = Some (r, w')"
    and c: "calls w' = calls w1 @ new_calls w1 w'"
    and u: "uuids w' = uuids w1"
    and pb: "published (new_calls w1 w') = []" by blast
  have c1: "calls w1 = calls w @ evs" by (simp add: w1_def)
  have "published (new_calls w w') =
          [build_request operation (uuid4 client (uuids w)) (isoformat client (now w)) params]"
    by (simp add: new_calls_chain [OF c1 c] published_append pb) (simp add: evs_def)
  then show ?thesis
    using r u by (simp add: s build_request_fresh [OF assms] w1_def)
qed

text \<open>The request of \<^verbatim>\<open>find_symbols\<close> with its one parameter.\<close>

theorem envelope_is_flat_merge_witness:
  "distinct (map fst [(''query'', JString ''AAPL'')])
   \<and> set (map fst [(''query'', JString ''AAPL'')]) \<inter> {''operation'', ''execution_id'', ''timestamp''} = {}
   \<and> (\<exists>r w'. send_request (scripted None (delivers 0 []) no_faults) ''find_symbols''
                 (Some [(''query'', JString ''AAPL'')]) 2 3 world0 = Some (r, w')
           \<and> published (new_calls world0 w') =
               [[(''operation'', JString ''find_symbols''),
                 (''execution_id'', JString ''id-''),
                 (''timestamp'', JString ''2024-01-01T00:00:00''),
                 (''query'', JString ''AAPL'')]]
           \<and> uuids w' = Suc 0)"
proof -
  have h1: "distinct (map fst [(''query'', JString ''AAPL'')])" by simp
  have h2: "\<forall>k \<in> set (map fst [(''query'', JString ''AAPL'')]). k \<notin> {''operation'', ''execution_id'', ''timestamp''}"
    by simp
  have h3: "[(''query'', JString ''AAPL'')] = (case Some [(''query'', JString ''AAPL'')] of None \<Rightarrow> [] | Some q \<Rightarrow> q)"
    by simp
  from envelope_is_flat_merge [OF h1 h2 h3, of "scripted None (delivers 0 []) no_faults" "''find_symbols''" 2 3 world0]
  have "\<exists>r w'. send_request (scripted None (delivers 0 []) no_faults) ''find_symbols''
                 (Some [(''query'', JString ''AAPL'')]) 2 3 world0 = Some (r, w')
           \<and> published (new_calls world0 w') =
               [[(''operation'', JString ''find_symbols''),
                 (''execution_id'', JString ''id-''),
                 (''timestamp'', JString ''2024-01-01T00:00:00''),
                 (''query'', JString ''AAPL'')]]
           \<and> uuids w' = Suc 0"
    by (simp add: scripted_def world0_def)
  moreover have "set (map fst [(''query'', JString ''AAPL'')]) \<inter> {''operation'', ''execution_id'', ''timestamp''} = {}"
    by simp
  ultimately show ?thesis using h1 by blast
qed

section \<open>C9: the rate limiter\<close>

text \<open>
  C9, as amended. The first \<^verbatim>\<open>acquire\<close> on a fresh limiter asks for no sleep. Take two
  consecutive calls, with \<open>gap\<close> the time between the return of the first and the start
  of the second, the first having returned at a positive reading of \<^verbatim>\<open>time.monotonic()\<close>
  (the source tells a fresh limiter by the stored reading 0). Let each of the two
  subtractions round with a relative error of at most \<open>u\<close>, monotonically and leaving
  \<open>min_delay\<close> (itself a double) as it is, and let \<^verbatim>\<open>asyncio.sleep\<close> return at most \<open>r\<close>
  early. Then the second call returns no earlier than \<open>(1 - u) * min_delay - r\<close> after
  the first returned; if \<open>min_delay \<le> gap\<close> it does not sleep; and if the rounded gap is
  below \<open>min_delay\<close> it asks for a sleep of the rounded remainder. With exact differences
  and a sleep that is not early (\<open>u = 0\<close>, \<open>r = 0\<close>) the second call returns at least
  \<open>min_delay\<close> after the first.
\<close>

theorem acquire_spacing:
  "waits (snd (acquire fl slept (RateLimiter_init delay) t)) = waits t
   \<and> ((\<forall>x. \<bar>fl x - x\<bar> \<le> u * \<bar>x\<bar>) \<and> 0 \<le> u \<and> u \<le> 1
       \<and> mono fl \<and> fl (min_delay self) = min_delay self
       \<and> (\<forall>x. x - r \<le> slept x) \<and> 0 \<le> r
       \<and> acquire fl slept self t0 = (self1, t1) \<and> 0 < monotonic t1 \<and> 0 \<le> gap
       \<and> acquire fl slept self1 (idle gap t1) = (self2, t2) \<longrightarrow>
        (1 - u) * min_delay self - r \<le> monotonic t2 - monotonic t1
        \<and> (min_delay self \<le> gap \<longrightarrow> waits t2 = waits t1 \<and> monotonic t2 = monotonic t1 + gap)
        \<and> (fl gap < min_delay self \<longrightarrow>
              waits t2 = waits t1 @ [fl (min_delay self - fl gap)]
              \<and> monotonic t2 = monotonic t1 + gap + slept (fl (min_delay self - fl gap))))"
proof (rule conjI, simp add: acquire_fresh, rule impI)
  assume a: "(\<forall>x. \<bar>fl x - x\<bar> \<le> u * \<bar>x\<bar>) \<and> 0 \<le> u \<and> u \<le> 1
       \<and> mono fl \<and> fl (min_delay self) = min_delay self
       \<and> (\<forall>x. x - r \<le> slept x) \<and> 0 \<le> r
       \<and> acquire fl slept self t0 = (self1, t1) \<and> 0 < monotonic t1 \<and> 0 \<le> gap
       \<and> acquire fl slept self1 (idle gap t1) = (self2, t2)"
  define m where "m = min_delay self"
  from a have fl: "\<And>x. \<bar>fl x - x\<bar> \<le> u * \<bar>x\<bar>" and u: "0 \<le> u" "u \<le> 1"
    and mono: "mono fl" and fm: "fl m = m"
    and sl: "\<And>x. x - r \<le> slept x" and r: "0 \<le> r"
    and first: "acquire fl slept self t0 = (self1, t1)" and pos: "0 < monotonic t1"
    and g: "0 \<le> gap" and second: "acquire fl slept self1 (idle gap t1) = (self2, t2)"
    by (simp_all add: m_def)
  from acquire_self [OF first] have s1: "min_delay self1 = m" "last_resolve_time self1 = monotonic t1"
    by (simp_all add: m_def)
  from acquire_second [OF s1 pos, of fl slept gap] second
  have t2: "t2 = (if fl gap < m
            then \<lparr>monotonic = monotonic t1 + gap + slept (fl (m - fl gap)),
                  waits = waits t1 @ [fl (m - fl gap)]\<rparr>
            else \<lparr>monotonic = monotonic t1 + gap, waits = waits t1\<rparr>)"
    by simp
  have b1: "(1 - u) * min_delay self - r \<le> monotonic t2 - monotonic t1"
  proof (cases "fl gap < m")
    case True
    from rounded_wait_bound [OF fl [of gap] fl [of "m - fl gap"] u g True]
    have "(1 - u) * m \<le> gap + fl (m - fl gap)" .
    moreover from sl [of "fl (m - fl gap)"] have "fl (m - fl gap) - r \<le> slept (fl (m - fl gap))" .
    ultimately show ?thesis by (simp add: t2 True m_def [symmetric])
  next
    case False
    then have "m \<le> fl gap" by simp
    from rounded_gap_bound [OF fl [of gap] u g this] r
    show ?thesis by (simp add: t2 False m_def [symmetric])
  qed
  have b2: "waits t2 = waits t1 \<and> monotonic t2 = monotonic t1 + gap" if "min_delay self \<le> gap"
  proof -
    from that mono have "fl m \<le> fl gap" by (simp add: m_def mono_def)
    then have "\<not> fl gap < m" by (simp add: fm)
    then show ?thesis by (simp add: t2)
  qed
  have b3: "waits t2 = waits t1 @ [fl (min_delay self - fl gap)]
        \<and> monotonic t2 = monotonic t1 + gap + slept (fl (min_delay self - fl gap))"
    if "fl gap < min_delay self"
    using that by (simp add: t2 m_def)
  from b1 b2 b3
  show "(1 - u) * min_delay self - r \<le> monotonic t2 - monotonic t1
        \<and> (min_delay self \<le> gap \<longrightarrow> waits t2 = waits t1 \<and> monotonic t2 = monotonic t1 + gap)
        \<and> (fl gap < min_delay self \<longrightarrow>
              waits t2 = waits t1 @ [fl (min_delay self - fl gap)]
              \<and> monotonic t2 = monotonic t1 + gap + slept (fl (min_delay self - fl gap)))"
    by blast
qed

text \<open>A limiter of one second: a second call a quarter of a second later, and one two seconds later.\<close>

theorem acquire_spacing_witness:
  "(\<forall>x. \<bar>exact x - x\<bar> \<le> 0 * \<bar>x\<bar>) \<and> mono exact
   \<and> exact (min_delay (RateLimiter_init 1)) = min_delay (RateLimiter_init 1)
   \<and> (\<forall>x. x - 0 \<le> punctual x)
   \<and> acquire exact punctual (RateLimiter_init 1) \<lparr>monotonic = 100, waits = []\<rparr> =
       (\<lparr>min_delay = 1, last_resolve_time = 100\<rparr>, \<lparr>monotonic = 100, waits = []\<rparr>)
   \<and> acquire exact punctual \<lparr>min_delay = 1, last_resolve_time = 100\<rparr>
         (idle (1/4) \<lparr>monotonic = 100, waits = []\<rparr>) =
       (\<lparr>min_delay = 1, last_resolve_time = 101\<rparr>, \<lparr>monotonic = 101, waits = [3/4]\<rparr>)
   \<and> (1 - 0) * min_delay (RateLimiter_init 1) - 0
        \<le> monotonic \<lparr>monotonic = 101, waits = [3/4]\<rparr> - monotonic \<lparr>monotonic = 100, waits = []\<rparr>
   \<and> acquire exact punctual \<lparr>min_delay = 1, last_resolve_time = 100\<rparr>
         (idle 2 \<lparr>monotonic = 100, waits = []\<rparr>) =
       (\<lparr>min_delay = 1, last_resolve_time = 102\<rparr>, \<lparr>monotonic = 102, waits = []\<rparr>)"
proof -
  have h: "(\<forall>x. \<bar>exact x - x\<bar> \<le> 0 * \<bar>x\<bar>)" "mono exact"
    "exact (min_delay (RateLimiter_init 1)) = min_delay (RateLimiter_init 1)"
    "\<forall>x. x - 0 \<le> punctual x"
    by (simp_all add: exact_def punctual_def mono_def RateLimiter_init_def)
  have a1: "acquire exact punctual (RateLimiter_init 1) \<lparr>monotonic = 100, waits = []\<rparr> =
       (\<lparr>min_delay = 1, last_resolve_time = 100\<rparr>, \<lparr>monotonic = 100, waits = []\<rparr>)"
    by (simp add: acquire_def RateLimiter_init_def)
  have a2: "acquire exact punctual \<lparr>min_delay = 1, last_resolve_time = 100\<rparr>
         (idle (1/4) \<lparr>monotonic = 100, waits = []\<rparr>) =
       (\<lparr>min_delay = 1, last_resolve_time = 101\<rparr>, \<lparr>monotonic = 101, waits = [3/4]\<rparr>)"
    by (simp add: acquire_def asyncio_sleep_def idle_def exact_def punctual_def Let_def)
  have a3: "acquire exact punctual \<lparr>min_delay = 1, last_resolve_time = 100\<rparr>
         (idle 2 \<lparr>monotonic = 100, waits = []\<rparr>) =
       (\<lparr>min_delay = 1, last_resolve_time = 102\<rparr>, \<lparr>monotonic = 102, waits = []\<rparr>)"
    by (simp add: acquire_def asyncio_sleep_def idle_def exact_def punctual_def Let_def)
  from acquire_spacing [of exact punctual 1 "\<lparr>monotonic = 100, waits = []\<rparr>" 0 "RateLimiter_init 1" 0
          "\<lparr>monotonic = 100, waits = []\<rparr>" "\<lparr>min_delay = 1, last_resolve_time = 100\<rparr>"
          "\<lparr>monotonic = 100, waits = []\<rparr>" "1/4"
          "\<lparr>min_delay = 1, last_resolve_time = 101\<rparr>" "\<lparr>monotonic = 101, waits = [3/4]\<rparr>",
          THEN conjunct2, THEN mp, THEN conjunct1] h a1 a2
  have "(1 - 0) * min_delay (RateLimiter_init 1) - 0
        \<le> monotonic \<lparr>monotonic = 101, waits = [3/4]\<rparr> - monotonic \<lparr>monotonic = 100, waits = []\<rparr>"
    by simp
  with h a1 a2 a3 show ?thesis by blast
qed

text \<open>
  C9 as stated fails: the first call returns at the reading 0, the second starts a quarter
  of a second later and does not sleep, although \<open>min_delay\<close> is one second.
\<close>

theorem acquire_at_zero_counterexample:
  "acquire exact punctual (RateLimiter_init 1) \<lparr>monotonic = 0, waits = []\<rparr> =
       (\<lparr>min_delay = 1, last_resolve_time = 0\<rparr>, \<lparr>monotonic = 0, waits = []\<rparr>)
   \<and> acquire exact punctual \<lparr>min_delay = 1, last_resolve_time = 0\<rparr>
         (idle (1/4) \<lparr>monotonic = 0, waits = []\<rparr>) =
       (\<lparr>min_delay = 1, last_resolve_time = 1/4\<rparr>, \<lparr>monotonic = 1/4, waits = []\<rparr>)
   \<and> (1/4 :: rat) < 1"
  by (simp add: acquire_def RateLimiter_init_def asyncio_sleep_def idle_def exact_def punctual_def Let_def)

section \<open>C10: messages without the attribute\<close>




end
